theory Spec2Isabelle
  imports Complex_Main "HOL-Library.AList"
begin

section \<open>Python values, states and exceptions\<close>

text \<open>
  The engine passes a \<^verbatim>\<open>dict[str, Any]\<close> from step to step. A Python value is one of
  the shapes below. A float is the real number it denotes, or a NaN, or an infinity
  (\<open>PInf True\<close> is the positive one); arithmetic on floats is not modelled. \<open>PObj tn i\<close> is
  an object that the \<^verbatim>\<open>json\<close> module cannot encode (a function, a set, an instance of a
  user class), with the name \<open>tn\<close> of its type and an identity \<open>i\<close>. The key of a nested
  dict is a string, an integer, a boolean, \<^verbatim>\<open>None\<close>, a float, or a hashable object of
  another type (\<open>KObj tn i\<close>: a tuple, a frozenset). A dict is an association list in
  insertion order; \<^verbatim>\<open>d[k] = v\<close> is \<^const>\<open>AList.update\<close> (the key keeps its place, a new
  key goes last) and \<^verbatim>\<open>d.get(k)\<close> is \<^const>\<open>map_of\<close>. Nested containers are values: only
  the identity of the top-level dict objects held by a checkpointer is tracked (see the
  heap below).
\<close>

datatype pykey =
    KStr string
  | KInt int
  | KBool bool
  | KNone
  | KFloat real
  | KNaN
  | KInf bool
  | KObj string nat

datatype pyval =
    PNone
  | PBool bool
  | PInt int
  | PFloat real
  | PNaN
  | PInf bool
  | PStr string
  | PList "pyval list"
  | PTuple "pyval list"
  | PDict "(pykey \<times> pyval) list"
  | PObj string nat

type_synonym state = "(string \<times> pyval) list"

text \<open>A dict with string keys, as a nested value.\<close>

definition str_keys :: "(string \<times> 'a) list \<Rightarrow> (pykey \<times> 'a) list" where
  "str_keys kvs = map (\<lambda>(k, v). (KStr k, v)) kvs"

text \<open>
  \<^verbatim>\<open>{**a, **b}\<close>: the items of \<open>a\<close>, then those of \<open>b\<close> in their order, each one assigned.
\<close>

definition dict_merge :: "('k \<times> 'v) list \<Rightarrow> ('k \<times> 'v) list \<Rightarrow> ('k \<times> 'v) list" where
  "dict_merge a b = fold (\<lambda>(k, v). AList.update k v) b a"

text \<open>Truth value testing, as \<^verbatim>\<open>if x:\<close> and \<^verbatim>\<open>x and y\<close> do it.\<close>

fun truthy :: "pyval \<Rightarrow> bool" where
  "truthy PNone = False"
| "truthy (PBool b) = b"
| "truthy (PInt i) = (i \<noteq> 0)"
| "truthy (PFloat x) = (x \<noteq> 0)"
| "truthy PNaN = True"
| "truthy (PInf b) = True"
| "truthy (PStr s) = (s \<noteq> [])"
| "truthy (PList xs) = (xs \<noteq> [])"
| "truthy (PTuple xs) = (xs \<noteq> [])"
| "truthy (PDict kvs) = (kvs \<noteq> [])"
| "truthy (PObj tn i) = True"

text \<open>
  What a \<^verbatim>\<open>raise\<close> raises. \<open>Exn\<close> is an instance of \<^verbatim>\<open>Exception\<close>: the names of its class and
  of the bases of that class below \<^verbatim>\<open>Exception\<close>, most specific first, and the text
  \<^verbatim>\<open>str(e)\<close>. \<open>Signal\<close> is an instance of a class that derives from \<^verbatim>\<open>BaseException\<close> and
  not from \<^verbatim>\<open>Exception\<close> (\<^verbatim>\<open>asyncio.CancelledError\<close>, \<^verbatim>\<open>KeyboardInterrupt\<close>, \<^verbatim>\<open>SystemExit\<close>),
  with the names of its class and of the bases below \<^verbatim>\<open>BaseException\<close>. A clause
  \<^verbatim>\<open>except Exception\<close> catches the first kind only.
\<close>

datatype exn =
    Exn (exn_mro: "string list") (exn_text: string)
  | Signal (exn_mro: "string list") (exn_text: string)

fun is_Exception :: "exn \<Rightarrow> bool" where
  "is_Exception (Exn mro text) = True"
| "is_Exception (Signal mro text) = False"

definition isinstance :: "exn \<Rightarrow> string list \<Rightarrow> bool" where
  \<comment> \<open>\<^verbatim>\<open>isinstance(e, classes)\<close>, the test an \<^verbatim>\<open>except classes as e\<close> clause makes\<close>
  "isinstance e classes =
     list_ex (\<lambda>c. (c = ''Exception'' \<and> is_Exception e) \<or> c = ''BaseException'' \<or>
                   c \<in> set (exn_mro e)) classes"

text \<open>
  A step handler takes the state dict and the world outside the engine (whatever a
  handler reads and writes besides the state: counters of a closure, a network). It either
  returns a state, or raises; when it raises, the dict it was given holds whatever the
  handler wrote into it before raising, which is the second component of the failure.
\<close>

type_synonym 'w handler = "state \<Rightarrow> 'w \<Rightarrow> ((exn \<times> state) + state) \<times> 'w"

text \<open>
  What the interpreter decides is a parameter. \<open>node_lookup_error v\<close> is what lines 169 to
  171 of graph.py raise for a truthy node reference \<open>v\<close> that is not a string (a
  \<^verbatim>\<open>ValueError\<close> with \<^verbatim>\<open>str(v)\<close> in its text, or a \<^verbatim>\<open>TypeError\<close> when \<open>v\<close> cannot be hashed);
  \<open>key_error k\<close> is the \<^verbatim>\<open>KeyError\<close> of a subscript with the missing key \<open>k\<close>; \<open>float_repr x\<close>
  is \<^verbatim>\<open>float.__repr__\<close>; \<open>max_str_digits\<close> is \<^verbatim>\<open>sys.get_int_max_str_digits()\<close>, the number of
  digits above which an integer is not written in decimal (0 when there is no limit); and
  \<open>json_depth\<close> is the number of nested containers that the \<^verbatim>\<open>json\<close> module can enter before
  the interpreter raises \<^verbatim>\<open>RecursionError\<close>, taken to be the same at each call of
  \<^verbatim>\<open>json.dumps\<close> and \<^verbatim>\<open>json.loads\<close> that \<^verbatim>\<open>save\<close> makes.
\<close>

record runtime =
  node_lookup_error :: "pyval \<Rightarrow> exn"
  key_error :: "pyval \<Rightarrow> exn"
  float_repr :: "real \<Rightarrow> string"
  max_str_digits :: nat
  json_depth :: nat

section \<open>RetryPolicy (retry.py)\<close>

text \<open>
  Intervals are Python floats; they are modelled as reals, without rounding: the product
  \<^verbatim>\<open>interval * self.backoff_multiplier\<close> is exact here, and an interval that is a NaN or an
  infinity is outside the model. The properties below do not depend on the value slept.
\<close>

record RetryPolicy =
  max_attempts :: int
  initial_interval :: real
  backoff_multiplier :: real
  max_interval :: real
  retry_on :: "string list"

definition default_RetryPolicy :: RetryPolicy where
  "default_RetryPolicy =
     \<lparr>max_attempts = 3, initial_interval = 1, backoff_multiplier = 2, max_interval = 30,
      retry_on = [''Exception'']\<rparr>"

text \<open>What \<^verbatim>\<open>execute\<close> does to the outside: it calls the handler and it sleeps.\<close>

datatype event = Invoked | Slept real

definition RuntimeError_no_result :: exn where
  "RuntimeError_no_result =
     Exn [''RuntimeError''] ''Retry loop completed without result or exception''"

text \<open>
  The loop \<^verbatim>\<open>for attempt in range(self.max_attempts)\<close> of \<^verbatim>\<open>RetryPolicy.execute\<close>, from
  \<open>attempt\<close> on, with the loop's variables \<open>interval\<close> and \<open>last_exception\<close>, and the two
  statements after the loop. Every attempt gets the same dict object, so a later attempt
  sees what an earlier one wrote.
\<close>

function retry_loop ::
  "RetryPolicy \<Rightarrow> 'w handler \<Rightarrow> int \<Rightarrow> real \<Rightarrow> exn option \<Rightarrow> state \<Rightarrow> 'w \<Rightarrow> event list
     \<Rightarrow> ((exn \<times> state) + state) \<times> 'w \<times> event list" where
  "retry_loop p func attempt interval last_exception st w tr =
     (if attempt < max_attempts p then
        (case func st w of
           (Inr result, w') \<Rightarrow> (Inr result, w', tr @ [Invoked])
         | (Inl (e, st'), w') \<Rightarrow>
             if isinstance e (retry_on p) then
               if attempt < max_attempts p - 1 then
                 retry_loop p func (attempt + 1)
                   (min (interval * backoff_multiplier p) (max_interval p)) (Some e) st' w'
                   (tr @ [Invoked, Slept interval])
               else retry_loop p func (attempt + 1) interval (Some e) st' w' (tr @ [Invoked])
             else (Inl (e, st'), w', tr @ [Invoked]))
      else
        (case last_exception of
           Some e \<Rightarrow> (Inl (e, st), w, tr)
         | None \<Rightarrow> (Inl (RuntimeError_no_result, st), w, tr)))"
  by pat_completeness auto
termination
  by (relation "measure (\<lambda>(p, func, attempt, interval, last_exception, st, w, tr).
        nat (max_attempts p - attempt))") auto

declare retry_loop.simps [simp del]

text \<open>\<^verbatim>\<open>RetryPolicy.execute(func, state)\<close>.\<close>

definition retry_execute ::
  "RetryPolicy \<Rightarrow> 'w handler \<Rightarrow> state \<Rightarrow> 'w \<Rightarrow> ((exn \<times> state) + state) \<times> 'w \<times> event list" where
  "retry_execute p func st w = retry_loop p func 0 (initial_interval p) None st w []"

section \<open>The json module, as far as checkpoint.py uses it\<close>

text \<open>
  \<^verbatim>\<open>json.dumps\<close> turns a value into a JSON document or raises; the document is kept as its
  tree. Lists and tuples both become arrays. The key of a dict becomes a string: a string
  is kept, a float is written as the number is, \<^verbatim>\<open>True\<close>, \<^verbatim>\<open>False\<close> and \<^verbatim>\<open>None\<close> become
  \<^verbatim>\<open>true\<close>, \<^verbatim>\<open>false\<close> and \<^verbatim>\<open>null\<close>, an integer becomes its decimal digits, and a key of
  another type raises \<^verbatim>\<open>TypeError\<close>; the key is converted before the value is encoded. An
  object that cannot be encoded raises \<^verbatim>\<open>TypeError\<close>. An integer with more digits than the
  interpreter's limit raises \<^verbatim>\<open>ValueError\<close>, as a value and as a key. Entering a container
  when no depth is left raises \<^verbatim>\<open>RecursionError\<close>. The first error met, in the order of the
  items, is the one raised. Values are finite trees, so the \<^verbatim>\<open>ValueError\<close> of a circular
  reference does not arise.
\<close>

datatype json =
    JNull
  | JBool bool
  | JNumber int
  | JFloat real
  | JNaN
  | JInf bool
  | JString string
  | JArray "json list"
  | JObject "(string \<times> json) list"

definition not_serializable :: "string \<Rightarrow> exn" where
  "not_serializable tn =
     Exn [''TypeError''] (''Object of type '' @ tn @ '' is not JSON serializable'')"

definition bad_key :: "string \<Rightarrow> exn" where
  "bad_key tn =
     Exn [''TypeError''] (''keys must be str, int, float, bool or None, not '' @ tn)"

definition recursion_encoding :: exn where
  "recursion_encoding =
     Exn [''RecursionError'', ''RuntimeError'']
       ''maximum recursion depth exceeded while encoding a JSON object''"

definition recursion_decoding :: "string \<Rightarrow> exn" where
  "recursion_decoding what =
     Exn [''RecursionError'', ''RuntimeError'']
       (''maximum recursion depth exceeded while decoding a JSON '' @ what @
        '' from a unicode string'')"

text \<open>The decimal digits of an integer, as \<^verbatim>\<open>int.__repr__\<close> writes them.\<close>

function nat_repr :: "nat \<Rightarrow> string" where
  "nat_repr n =
     (if n < 10 then [''0123456789'' ! n]
      else nat_repr (n div 10) @ [''0123456789'' ! (n mod 10)])"
  by pat_completeness auto
termination
  by (relation "measure id") auto

declare nat_repr.simps [simp del]

definition int_repr :: "int \<Rightarrow> string" where
  "int_repr i = (if i < 0 then CHR ''-'' # nat_repr (nat (- i)) else nat_repr (nat i))"

definition digits_exceeded :: "runtime \<Rightarrow> exn" where
  "digits_exceeded rt =
     Exn [''ValueError'']
       (''Exceeds the limit ('' @ nat_repr (max_str_digits rt) @
        '' digits) for integer string conversion; '' @
        ''use sys.set_int_max_str_digits() to increase the limit'')"

definition int_str :: "runtime \<Rightarrow> int \<Rightarrow> exn + string" where
  "int_str rt i =
     (if 0 < max_str_digits rt \<and> max_str_digits rt < length (nat_repr (nat \<bar>i\<bar>))
      then Inl (digits_exceeded rt)
      else Inr (int_repr i))"

fun key_string :: "runtime \<Rightarrow> pykey \<Rightarrow> exn + string" where
  "key_string rt (KStr s) = Inr s"
| "key_string rt (KFloat x) = Inr (float_repr rt x)"
| "key_string rt KNaN = Inr ''NaN''"
| "key_string rt (KInf b) = Inr (if b then ''Infinity'' else ''-Infinity'')"
| "key_string rt (KBool b) = Inr (if b then ''true'' else ''false'')"
| "key_string rt KNone = Inr ''null''"
| "key_string rt (KInt i) = int_str rt i"
| "key_string rt (KObj tn i) = Inl (bad_key tn)"

text \<open>\<^verbatim>\<open>json.dumps(v)\<close> when \<open>d\<close> more containers can be entered.\<close>

fun json_dumps :: "runtime \<Rightarrow> nat \<Rightarrow> pyval \<Rightarrow> exn + json"
  and json_dumps_list :: "runtime \<Rightarrow> nat \<Rightarrow> pyval list \<Rightarrow> exn + json list"
  and json_dumps_items ::
    "runtime \<Rightarrow> nat \<Rightarrow> (pykey \<times> pyval) list \<Rightarrow> exn + (string \<times> json) list" where
  "json_dumps rt d PNone = Inr JNull"
| "json_dumps rt d (PBool b) = Inr (JBool b)"
| "json_dumps rt d (PInt i) = map_sum id (\<lambda>digits. JNumber i) (int_str rt i)"
| "json_dumps rt d (PFloat x) = Inr (JFloat x)"
| "json_dumps rt d PNaN = Inr JNaN"
| "json_dumps rt d (PInf b) = Inr (JInf b)"
| "json_dumps rt d (PStr s) = Inr (JString s)"
| "json_dumps rt d (PList xs) =
     (if d = 0 then Inl recursion_encoding
      else map_sum id JArray (json_dumps_list rt (d - 1) xs))"
| "json_dumps rt d (PTuple xs) =
     (if d = 0 then Inl recursion_encoding
      else map_sum id JArray (json_dumps_list rt (d - 1) xs))"
| "json_dumps rt d (PDict kvs) =
     (if d = 0 then Inl recursion_encoding
      else map_sum id JObject (json_dumps_items rt (d - 1) kvs))"
| "json_dumps rt d (PObj tn i) = Inl (not_serializable tn)"
| "json_dumps_list rt d [] = Inr []"
| "json_dumps_list rt d (x # xs) =
     (case json_dumps rt d x of
        Inl e \<Rightarrow> Inl e
      | Inr j \<Rightarrow> map_sum id ((#) j) (json_dumps_list rt d xs))"
| "json_dumps_items rt d [] = Inr []"
| "json_dumps_items rt d ((k, v) # kvs) =
     (case key_string rt k of
        Inl e \<Rightarrow> Inl e
      | Inr s \<Rightarrow>
          (case json_dumps rt d v of
             Inl e \<Rightarrow> Inl e
           | Inr j \<Rightarrow> map_sum id ((#) (s, j)) (json_dumps_items rt d kvs)))"

text \<open>
  \<^verbatim>\<open>json.loads\<close> of a document, when \<open>d\<close> more containers can be entered. An array is read
  back as a list. An object is read back as a dict with string keys, built by assigning
  its members in their order, so that of two members with the same name the later one
  gives the value; \<open>json_loads_items\<close> has the dict built so far. A number of a document
  that \<^verbatim>\<open>json.dumps\<close> wrote is within the limit on digits, and is read back.
\<close>

fun json_loads :: "nat \<Rightarrow> json \<Rightarrow> exn + pyval"
  and json_loads_list :: "nat \<Rightarrow> json list \<Rightarrow> exn + pyval list"
  and json_loads_items ::
    "nat \<Rightarrow> (string \<times> json) list \<Rightarrow> (string \<times> pyval) list \<Rightarrow> exn + (string \<times> pyval) list" where
  "json_loads d JNull = Inr PNone"
| "json_loads d (JBool b) = Inr (PBool b)"
| "json_loads d (JNumber i) = Inr (PInt i)"
| "json_loads d (JFloat x) = Inr (PFloat x)"
| "json_loads d JNaN = Inr PNaN"
| "json_loads d (JInf b) = Inr (PInf b)"
| "json_loads d (JString s) = Inr (PStr s)"
| "json_loads d (JArray js) =
     (if d = 0 then Inl (recursion_decoding ''array'')
      else map_sum id PList (json_loads_list (d - 1) js))"
| "json_loads d (JObject ms) =
     (if d = 0 then Inl (recursion_decoding ''object'')
      else map_sum id (\<lambda>kvs. PDict (str_keys kvs)) (json_loads_items (d - 1) ms []))"
| "json_loads_list d [] = Inr []"
| "json_loads_list d (j # js) =
     (case json_loads d j of
        Inl e \<Rightarrow> Inl e
      | Inr v \<Rightarrow> map_sum id ((#) v) (json_loads_list d js))"
| "json_loads_items d [] built = Inr built"
| "json_loads_items d ((k, j) # ms) built =
     (case json_loads d j of
        Inl e \<Rightarrow> Inl e
      | Inr v \<Rightarrow> json_loads_items d ms (AList.update k v built))"

section \<open>Checkpointer and MemoryCheckpointer (checkpoint.py)\<close>

text \<open>
  The abstract class \<^verbatim>\<open>Checkpointer\<close>: an implementation with a store of type \<open>'c\<close>. Each
  method may raise. \<^verbatim>\<open>save\<close> returns the exception it raised, if any.
\<close>

record 'c Checkpointer =
  cp_save :: "pyval \<Rightarrow> state \<Rightarrow> 'c \<Rightarrow> exn option \<times> 'c"
  cp_load :: "pyval \<Rightarrow> 'c \<Rightarrow> (exn + state option) \<times> 'c"
  cp_delete :: "pyval \<Rightarrow> 'c \<Rightarrow> exn option \<times> 'c"

definition cp_exists :: "'c Checkpointer \<Rightarrow> pyval \<Rightarrow> 'c \<Rightarrow> (exn + bool) \<times> 'c" where
  "cp_exists k thread_id c =
     (case cp_load k thread_id c of
        (Inl e, c') \<Rightarrow> (Inl e, c')
      | (Inr saved, c') \<Rightarrow> (Inr (saved \<noteq> None), c'))"

text \<open>
  \<^verbatim>\<open>MemoryCheckpointer\<close> keeps references to dict objects. The dict objects it creates live
  in a heap, a list in which a reference is an index; \<^verbatim>\<open>save\<close> appends the object it
  stores, so a reference held in \<^verbatim>\<open>_store\<close> is an index of the heap. Thread identifiers
  are declared \<^verbatim>\<open>str\<close>; the two dicts are keyed by Python values compared structurally,
  which is Python's comparison on strings. Times are integers, in microseconds.
\<close>

type_synonym ref = nat
type_synonym heap = "state list"

record MemoryCheckpointer =
  store :: "(pyval \<times> ref) list"
  timestamps :: "(pyval \<times> int) list"
  ttl :: int

definition MemoryCheckpointer_init :: "int \<Rightarrow> MemoryCheckpointer" where
  "MemoryCheckpointer_init ttl_seconds =
     \<lparr>store = [], timestamps = [], ttl = ttl_seconds * 1000000\<rparr>"

text \<open>
  The loop of \<^verbatim>\<open>_serialize\<close> over \<^verbatim>\<open>state.items()\<close>, with its variable \<open>result\<close>. The clause
  \<^verbatim>\<open>except (TypeError, ValueError)\<close> skips the key; any other exception leaves the loop.
\<close>

fun serialize_loop :: "runtime \<Rightarrow> state \<Rightarrow> state \<Rightarrow> exn + state" where
  "serialize_loop rt [] result = Inr result"
| "serialize_loop rt ((key, val) # rest) result =
     (case json_dumps rt (json_depth rt) val of
        Inr j \<Rightarrow> serialize_loop rt rest (AList.update key val result)
      | Inl e \<Rightarrow>
          if isinstance e [''TypeError'', ''ValueError''] then serialize_loop rt rest result
          else Inl e)"

definition serialize :: "runtime \<Rightarrow> state \<Rightarrow> exn + state" where
  "serialize rt st = serialize_loop rt st []"

text \<open>
  \<^verbatim>\<open>save\<close> at the time \<open>now\<close>: the snapshot \<^verbatim>\<open>json.loads(json.dumps(...))\<close> is a new dict
  object. The dumped dict is the JSON object of its dumped items and is read back as the
  dict of the loaded members (the \<open>PDict\<close> and \<open>JObject\<close> equations above, the dict being
  the first container entered). The state is read, not kept.
\<close>

definition mc_save ::
  "runtime \<Rightarrow> int \<Rightarrow> pyval \<Rightarrow> state \<Rightarrow> heap \<times> MemoryCheckpointer
     \<Rightarrow> exn option \<times> heap \<times> MemoryCheckpointer" where
  "mc_save rt now thread_id st hm =
     (case hm of (h, m) \<Rightarrow>
        (case serialize rt st of
           Inl e \<Rightarrow> (Some e, h, m)
         | Inr filtered \<Rightarrow>
             if json_depth rt = 0 then (Some recursion_encoding, h, m)
             else
               (case json_dumps_items rt (json_depth rt - 1) (str_keys filtered) of
                  Inl e \<Rightarrow> (Some e, h, m)
                | Inr members \<Rightarrow>
                    (case json_loads_items (json_depth rt - 1) members [] of
                       Inl e \<Rightarrow> (Some e, h, m)
                     | Inr snapshot \<Rightarrow>
                         (None, h @ [snapshot],
                          m\<lparr>store := AList.update thread_id (length h) (store m),
                            timestamps := AList.update thread_id now (timestamps m)\<rparr>)))))"

definition mc_delete :: "pyval \<Rightarrow> MemoryCheckpointer \<Rightarrow> MemoryCheckpointer" where
  "mc_delete thread_id m =
     m\<lparr>store := AList.delete thread_id (store m),
       timestamps := AList.delete thread_id (timestamps m)\<rparr>"

text \<open>\<^verbatim>\<open>load\<close> at the time \<open>now\<close> returns the reference held in \<^verbatim>\<open>_store\<close>.\<close>

definition mc_load ::
  "runtime \<Rightarrow> int \<Rightarrow> pyval \<Rightarrow> MemoryCheckpointer \<Rightarrow> (exn + ref option) \<times> MemoryCheckpointer" where
  "mc_load rt now thread_id m =
     (case map_of (store m) thread_id of
        None \<Rightarrow> (Inr None, m)
      | Some r \<Rightarrow>
          (case map_of (timestamps m) thread_id of
             None \<Rightarrow> (Inl (key_error rt thread_id), m)
           | Some t \<Rightarrow>
               if now - t > ttl m then (Inr None, mc_delete thread_id m)
               else (Inr (Some r), m)))"

definition mc_clear :: "MemoryCheckpointer \<Rightarrow> MemoryCheckpointer" where
  "mc_clear m = m\<lparr>store := [], timestamps := []\<rparr>"

definition mc_size :: "MemoryCheckpointer \<Rightarrow> nat" where
  "mc_size m = length (store m)"

text \<open>\<^verbatim>\<open>x[key] = val\<close> on the dict object that the reference \<open>r\<close> names.\<close>

definition setitem :: "ref \<Rightarrow> string \<Rightarrow> pyval \<Rightarrow> heap \<Rightarrow> heap" where
  "setitem r key val h = h[r := AList.update key val (h ! r)]"

text \<open>
  A \<^verbatim>\<open>MemoryCheckpointer\<close> as a \<^verbatim>\<open>Checkpointer\<close>, with the clock reading \<open>now\<close>. The caller
  of \<^verbatim>\<open>load\<close> receives the stored object itself; what it reads from it is the object's
  content.
\<close>

definition memory_checkpointer ::
  "runtime \<Rightarrow> int \<Rightarrow> (heap \<times> MemoryCheckpointer) Checkpointer" where
  "memory_checkpointer rt now =
     \<lparr>cp_save = mc_save rt now,
      cp_load = (\<lambda>thread_id hm. case hm of (h, m) \<Rightarrow>
        (case mc_load rt now thread_id m of
           (Inl e, m') \<Rightarrow> (Inl e, h, m')
         | (Inr None, m') \<Rightarrow> (Inr None, h, m')
         | (Inr (Some r), m') \<Rightarrow> (Inr (Some (h ! r)), h, m'))),
      cp_delete = (\<lambda>thread_id hm. case hm of (h, m) \<Rightarrow> (None, h, mc_delete thread_id m))\<rparr>"

section \<open>StateGraph (graph.py)\<close>

text \<open>
  A router is declared to return a node name; it may also return \<^verbatim>\<open>None\<close> or raise.
  \<open>on_failure\<close> is \<^verbatim>\<open>"error"\<close>, \<^verbatim>\<open>"skip"\<close> or the name of a node.
\<close>

record 'w Node =
  node_name :: string
  node_handler :: "'w handler"
  node_retry_policy :: "RetryPolicy option"
  on_failure :: string

record Edge =
  edge_source :: string
  edge_target :: "string option"
  edge_condition :: "(state \<Rightarrow> exn + string option) option"

record 'w StateGraph =
  nodes :: "(string \<times> 'w Node) list"
  edges :: "Edge list"
  entry_point :: "string option"

definition StateGraph_init :: "'w StateGraph" where
  "StateGraph_init = \<lparr>nodes = [], edges = [], entry_point = None\<rparr>"

definition add_node ::
  "string \<Rightarrow> 'w handler \<Rightarrow> RetryPolicy option \<Rightarrow> string \<Rightarrow> 'w StateGraph \<Rightarrow> 'w StateGraph" where
  "add_node name func retry_policy onf g =
     g\<lparr>nodes := AList.update name
        \<lparr>node_name = name, node_handler = func, node_retry_policy = retry_policy,
         on_failure = onf\<rparr> (nodes g)\<rparr>"

definition add_edge :: "string \<Rightarrow> string \<Rightarrow> 'w StateGraph \<Rightarrow> 'w StateGraph" where
  "add_edge src tgt g =
     g\<lparr>edges := edges g @ [\<lparr>edge_source = src, edge_target = Some tgt, edge_condition = None\<rparr>]\<rparr>"

definition add_conditional_edge ::
  "string \<Rightarrow> (state \<Rightarrow> exn + string option) \<Rightarrow> 'w StateGraph \<Rightarrow> 'w StateGraph" where
  "add_conditional_edge src router g =
     g\<lparr>edges := edges g @
        [\<lparr>edge_source = src, edge_target = None, edge_condition = Some router\<rparr>]\<rparr>"

definition set_entry_point :: "string \<Rightarrow> 'w StateGraph \<Rightarrow> exn + 'w StateGraph" where
  "set_entry_point node g =
     (if map_of (nodes g) node = None then Inl (Exn [''ValueError''] (''Unknown node: '' @ node))
      else Inr (g\<lparr>entry_point := Some node\<rparr>))"

text \<open>\<^verbatim>\<open>_execute_node\<close>: through the node's retry policy when it has one.\<close>

definition execute_node :: "'w Node \<Rightarrow> state \<Rightarrow> 'w \<Rightarrow> ((exn \<times> state) + state) \<times> 'w" where
  "execute_node node st w =
     (case node_retry_policy node of
        Some p \<Rightarrow> (case retry_execute p (node_handler node) st w of (r, w', tr) \<Rightarrow> (r, w'))
      | None \<Rightarrow> node_handler node st w)"

text \<open>\<^verbatim>\<open>_get_next_node\<close>: the loop over \<^verbatim>\<open>self.edges\<close> and the \<^verbatim>\<open>return None\<close> after it.\<close>

fun get_next_node :: "Edge list \<Rightarrow> string \<Rightarrow> state \<Rightarrow> exn + string option" where
  "get_next_node [] current st = Inr None"
| "get_next_node (edge # rest) current st =
     (if edge_source edge \<noteq> current then get_next_node rest current st
      else case edge_condition edge of
             Some router \<Rightarrow> router st
           | None \<Rightarrow> Inr (edge_target edge))"

text \<open>
  \<^verbatim>\<open>if checkpointer and thread_id\<close>: the checkpointer and the thread identifier that the
  three guarded calls use, when the test holds.
\<close>

definition checkpoint_target ::
  "'c Checkpointer option \<Rightarrow> pyval option \<Rightarrow> ('c Checkpointer \<times> pyval) option" where
  "checkpoint_target checkpointer thread_id =
     (case checkpointer of
        None \<Rightarrow> None
      | Some k \<Rightarrow>
          (case thread_id of
             None \<Rightarrow> None
           | Some t \<Rightarrow> if truthy t then Some (k, t) else None))"

definition save_checkpoint ::
  "('c Checkpointer \<times> pyval) option \<Rightarrow> state \<Rightarrow> 'c \<Rightarrow> exn option \<times> 'c" where
  "save_checkpoint ck st c =
     (case ck of
        None \<Rightarrow> (None, c)
      | Some (k, t) \<Rightarrow> cp_save k t st c)"

text \<open>
  Lines 198 to 203: the save after the \<^verbatim>\<open>try\<close> statement, then the routing. The result is
  the next value of \<open>current_node\<close> with the state, or the exception that leaves \<^verbatim>\<open>run\<close>.
\<close>

definition save_and_route ::
  "'w StateGraph \<Rightarrow> ('c Checkpointer \<times> pyval) option \<Rightarrow> string \<Rightarrow> state \<Rightarrow> 'w \<Rightarrow> 'c
     \<Rightarrow> (exn + string option \<times> state) \<times> 'w \<times> 'c" where
  "save_and_route g ck current_node st w c =
     (case save_checkpoint ck st c of
        (Some e, c') \<Rightarrow> (Inl e, w, c')
      | (None, c') \<Rightarrow>
          (case get_next_node (edges g) current_node st of
             Inl e \<Rightarrow> (Inl e, w, c')
           | Inr nxt \<Rightarrow> (Inr (nxt, st), w, c')))"

text \<open>
  One pass through the body of the \<^verbatim>\<open>while\<close> loop of \<^verbatim>\<open>run\<close>, lines 169 to 203. The clause
  \<^verbatim>\<open>except Exception\<close> of line 181 does not catch a raise that is no instance of
  \<^verbatim>\<open>Exception\<close>: it leaves \<^verbatim>\<open>run\<close> as it is, with nothing recorded and nothing saved.
\<close>

definition run_step ::
  "'w StateGraph \<Rightarrow> ('c Checkpointer \<times> pyval) option \<Rightarrow> string \<Rightarrow> state \<Rightarrow> 'w \<Rightarrow> 'c
     \<Rightarrow> (exn + string option \<times> state) \<times> 'w \<times> 'c" where
  "run_step g ck current_node st w c =
     (case map_of (nodes g) current_node of
        None \<Rightarrow> (Inl (Exn [''ValueError''] (''Unknown node: '' @ current_node)), w, c)
      | Some node \<Rightarrow>
          (case execute_node node
                  (AList.update ''_node_status'' (PStr ''running'')
                    (AList.update ''_current_node'' (PStr current_node) st)) w of
             (Inr st1, w') \<Rightarrow>
               save_and_route g ck current_node
                 (AList.update ''_node_status'' (PStr ''success'') st1) w' c
           | (Inl (e, st1), w') \<Rightarrow>
               if \<not> is_Exception e then (Inl e, w', c)
               else
                 (let st2 = AList.update ''_error'' (PStr (exn_text e))
                              (AList.update ''_node_status'' (PStr ''failed'') st1)
                  in if on_failure node = ''error'' then
                       (case save_checkpoint ck st2 c of
                          (Some e', c') \<Rightarrow> (Inl e', w', c')
                        | (None, c') \<Rightarrow> (Inl e, w', c'))
                     else if on_failure node = ''skip'' then
                       save_and_route g ck current_node
                         (AList.update ''_node_status'' (PStr ''skipped'') st2) w' c
                     else (Inr (Some (on_failure node), st2), w', c))))"

text \<open>
  The \<^verbatim>\<open>while current_node and current_node != "END"\<close> loop. It may run forever; then the
  value is \<open>None\<close>.
\<close>

partial_function (option) run_loop ::
  "'w StateGraph \<Rightarrow> ('c Checkpointer \<times> pyval) option \<Rightarrow> string option \<Rightarrow> state \<Rightarrow> 'w \<Rightarrow> 'c
     \<Rightarrow> ((exn + state) \<times> 'w \<times> 'c) option" where
  "run_loop g ck current_node st w c =
     (case current_node of
        None \<Rightarrow> Some (Inr st, w, c)
      | Some n \<Rightarrow>
          if n = [] \<or> n = ''END'' then Some (Inr st, w, c)
          else
            (case run_step g ck n st w c of
               (Inl e, w', c') \<Rightarrow> Some (Inl e, w', c')
             | (Inr (nxt, st'), w', c') \<Rightarrow> run_loop g ck nxt st' w' c'))"

declare run_loop.simps [code]

text \<open>
  \<^verbatim>\<open>state.get("_current_node", self.entry_point)\<close> after a resume, as the loop will treat
  it: a string is a node name, a false value ends the run at once, and any other value
  fails at the node lookup.
\<close>

definition resumed_node :: "runtime \<Rightarrow> state \<Rightarrow> string \<Rightarrow> exn + string option" where
  "resumed_node rt st entry =
     (case map_of st ''_current_node'' of
        None \<Rightarrow> Inr (Some entry)
      | Some (PStr n) \<Rightarrow> Inr (Some n)
      | Some v \<Rightarrow> if truthy v then Inl (node_lookup_error rt v) else Inr None)"

definition run ::
  "runtime \<Rightarrow> 'w StateGraph \<Rightarrow> state \<Rightarrow> 'c Checkpointer option \<Rightarrow> 'w \<Rightarrow> 'c
     \<Rightarrow> ((exn + state) \<times> 'w \<times> 'c) option" where
  "run rt g initial_state checkpointer w c =
     (case entry_point g of
        None \<Rightarrow>
          Some (Inl (Exn [''ValueError''] ''Entry point not set. Call set_entry_point() first.''),
                w, c)
      | Some entry \<Rightarrow>
          (let ck = checkpoint_target checkpointer (map_of initial_state ''thread_id'')
           in case ck of
                None \<Rightarrow> run_loop g ck (Some entry) initial_state w c
              | Some (k, t) \<Rightarrow>
                  (case cp_load k t c of
                     (Inl e, c') \<Rightarrow> Some (Inl e, w, c')
                   | (Inr None, c') \<Rightarrow> run_loop g ck (Some entry) initial_state w c'
                   | (Inr (Some saved), c') \<Rightarrow>
                       if saved = [] then run_loop g ck (Some entry) initial_state w c'
                       else
                         (let st = dict_merge initial_state saved
                          in case resumed_node rt st entry of
                               Inl e \<Rightarrow> Some (Inl e, w, c')
                             | Inr cur \<Rightarrow> run_loop g ck cur st w c'))))"

section \<open>AgentMiddleware and MiddlewareStack (middleware.py)\<close>

text \<open>
  A middleware is its four hooks. A hook works on the world as a handler does, and may
  raise. The interrupt signal of \<^verbatim>\<open>pre_tool_call\<close> is \<^verbatim>\<open>None\<close> or a dict.
\<close>

record 'w AgentMiddleware =
  pre_invoke :: "state \<Rightarrow> 'w \<Rightarrow> (exn + state) \<times> 'w"
  post_invoke :: "state \<Rightarrow> 'w \<Rightarrow> (exn + state) \<times> 'w"
  pre_tool_call :: "string \<Rightarrow> state \<Rightarrow> 'w \<Rightarrow> (exn + state option) \<times> 'w"
  post_tool_call :: "string \<Rightarrow> state \<Rightarrow> pyval \<Rightarrow> 'w \<Rightarrow> (exn + pyval) \<times> 'w"

text \<open>The base class: every hook is the default.\<close>

definition AgentMiddleware_base :: "'w AgentMiddleware" where
  "AgentMiddleware_base =
     \<lparr>pre_invoke = (\<lambda>st w. (Inr st, w)),
      post_invoke = (\<lambda>st w. (Inr st, w)),
      pre_tool_call = (\<lambda>tool_name args w. (Inr None, w)),
      post_tool_call = (\<lambda>tool_name args result w. (Inr result, w))\<rparr>"

text \<open>A \<^verbatim>\<open>MiddlewareStack\<close> is its list \<^verbatim>\<open>_middlewares\<close>, in registration order.\<close>

type_synonym 'w MiddlewareStack = "'w AgentMiddleware list"

definition MiddlewareStack_init :: "'w AgentMiddleware list option \<Rightarrow> 'w MiddlewareStack" where
  "MiddlewareStack_init middlewares = (case middlewares of None \<Rightarrow> [] | Some ms \<Rightarrow> ms)"

definition MiddlewareStack_add :: "'w AgentMiddleware \<Rightarrow> 'w MiddlewareStack \<Rightarrow> 'w MiddlewareStack" where
  "MiddlewareStack_add middleware stack = stack @ [middleware]"

text \<open>
  \<^verbatim>\<open>for mw in ...: state = await mw.hook(state)\<close>, for the hook \<open>hook\<close> over the list in the
  order given. An exception leaves the loop.
\<close>

fun invoke_loop ::
  "('w AgentMiddleware \<Rightarrow> state \<Rightarrow> 'w \<Rightarrow> (exn + state) \<times> 'w) \<Rightarrow> 'w AgentMiddleware list
     \<Rightarrow> state \<Rightarrow> 'w \<Rightarrow> (exn + state) \<times> 'w" where
  "invoke_loop hook [] st w = (Inr st, w)"
| "invoke_loop hook (mw # rest) st w =
     (case hook mw st w of
        (Inl e, w') \<Rightarrow> (Inl e, w')
      | (Inr st', w') \<Rightarrow> invoke_loop hook rest st' w')"

definition apply_pre_invoke ::
  "'w MiddlewareStack \<Rightarrow> state \<Rightarrow> 'w \<Rightarrow> (exn + state) \<times> 'w" where
  "apply_pre_invoke stack st w = invoke_loop pre_invoke stack st w"

definition apply_post_invoke ::
  "'w MiddlewareStack \<Rightarrow> state \<Rightarrow> 'w \<Rightarrow> (exn + state) \<times> 'w" where
  "apply_post_invoke stack st w = invoke_loop post_invoke (rev stack) st w"

text \<open>The loop of \<^verbatim>\<open>apply_pre_tool_call\<close> and the \<^verbatim>\<open>return None\<close> after it.\<close>

fun pre_tool_call_loop ::
  "'w AgentMiddleware list \<Rightarrow> string \<Rightarrow> state \<Rightarrow> 'w \<Rightarrow> (exn + state option) \<times> 'w" where
  "pre_tool_call_loop [] tool_name args w = (Inr None, w)"
| "pre_tool_call_loop (mw # rest) tool_name args w =
     (case pre_tool_call mw tool_name args w of
        (Inl e, w') \<Rightarrow> (Inl e, w')
      | (Inr (Some result), w') \<Rightarrow> (Inr (Some result), w')
      | (Inr None, w') \<Rightarrow> pre_tool_call_loop rest tool_name args w')"

definition apply_pre_tool_call ::
  "'w MiddlewareStack \<Rightarrow> string \<Rightarrow> state \<Rightarrow> 'w \<Rightarrow> (exn + state option) \<times> 'w" where
  "apply_pre_tool_call stack tool_name args w = pre_tool_call_loop stack tool_name args w"

fun post_tool_call_loop ::
  "'w AgentMiddleware list \<Rightarrow> string \<Rightarrow> state \<Rightarrow> pyval \<Rightarrow> 'w \<Rightarrow> (exn + pyval) \<times> 'w" where
  "post_tool_call_loop [] tool_name args result w = (Inr result, w)"
| "post_tool_call_loop (mw # rest) tool_name args result w =
     (case post_tool_call mw tool_name args result w of
        (Inl e, w') \<Rightarrow> (Inl e, w')
      | (Inr result', w') \<Rightarrow> post_tool_call_loop rest tool_name args result' w')"

definition apply_post_tool_call ::
  "'w MiddlewareStack \<Rightarrow> string \<Rightarrow> state \<Rightarrow> pyval \<Rightarrow> 'w \<Rightarrow> (exn + pyval) \<times> 'w" where
  "apply_post_tool_call stack tool_name args result w =
     post_tool_call_loop (rev stack) tool_name args result w"

section \<open>SubgraphExecutor (subgraph.py)\<close>

record ('w, 'c) SubgraphExecutor =
  graph :: "'w StateGraph"
  checkpointer :: "'c Checkpointer option"

text \<open>The dict that \<^verbatim>\<open>execute\<close> returns: its keys \<^verbatim>\<open>success\<close>, \<^verbatim>\<open>result\<close> and \<^verbatim>\<open>error\<close>.\<close>

record execution =
  success :: bool
  result :: "state option"
  error :: "string option"

text \<open>\<^verbatim>\<open>for key in inherit_keys: if key in parent_state: substate[key] = parent_state[key]\<close>\<close>

fun inherit_loop :: "string list \<Rightarrow> state \<Rightarrow> state \<Rightarrow> state" where
  "inherit_loop [] parent_state substate = substate"
| "inherit_loop (key # rest) parent_state substate =
     (case map_of parent_state key of
        Some v \<Rightarrow> inherit_loop rest parent_state (AList.update key v substate)
      | None \<Rightarrow> inherit_loop rest parent_state substate)"

text \<open>
  The comprehension \<^verbatim>\<open>{k: result.get(k) for k in return_keys if k in result}\<close>, with the
  dict built so far.
\<close>

fun filter_loop :: "string list \<Rightarrow> state \<Rightarrow> state \<Rightarrow> state" where
  "filter_loop [] res filtered = filtered"
| "filter_loop (k # rest) res filtered =
     (case map_of res k of
        Some v \<Rightarrow> filter_loop rest res (AList.update k v filtered)
      | None \<Rightarrow> filter_loop rest res filtered)"

text \<open>
  Lines 82 to 88 of \<^verbatim>\<open>SubgraphExecutor.execute\<close>: the isolated state. The test
  \<^verbatim>\<open>if parent_state and inherit_keys\<close> holds for values that are neither \<^verbatim>\<open>None\<close> nor empty.
\<close>

definition isolated_state :: "state \<Rightarrow> string list option \<Rightarrow> state option \<Rightarrow> state" where
  "isolated_state initial_state inherit_keys parent_state =
     (case parent_state of
        None \<Rightarrow> initial_state
      | Some ps \<Rightarrow>
          (case inherit_keys of
             None \<Rightarrow> initial_state
           | Some ks \<Rightarrow>
               if ps \<noteq> [] \<and> ks \<noteq> [] then inherit_loop ks ps initial_state
               else initial_state))"

text \<open>
  \<^verbatim>\<open>SubgraphExecutor.execute\<close>. \<^verbatim>\<open>if return_keys\<close> holds for a list that is neither \<^verbatim>\<open>None\<close>
  nor empty. The clause \<^verbatim>\<open>except Exception\<close> of line 104 turns an instance of \<^verbatim>\<open>Exception\<close>
  into a failure record; any other raise leaves \<^verbatim>\<open>execute\<close>. The result is \<open>None\<close> when the
  nested run does not end.
\<close>

definition subgraph_execute ::
  "runtime \<Rightarrow> ('w, 'c) SubgraphExecutor \<Rightarrow> state \<Rightarrow> string list option \<Rightarrow> string list option
     \<Rightarrow> state option \<Rightarrow> 'w \<Rightarrow> 'c \<Rightarrow> ((exn + execution) \<times> 'w \<times> 'c) option" where
  "subgraph_execute rt ex initial_state inherit_keys return_keys parent_state w c =
     (case run rt (graph ex) (isolated_state initial_state inherit_keys parent_state)
             (checkpointer ex) w c of
        None \<Rightarrow> None
      | Some (Inr res, w', c') \<Rightarrow>
          (case return_keys of
             None \<Rightarrow> Some (Inr \<lparr>success = True, result = Some res, error = None\<rparr>, w', c')
           | Some ks \<Rightarrow>
               if ks \<noteq> [] then
                 Some (Inr \<lparr>success = True, result = Some (filter_loop ks res []),
                            error = None\<rparr>, w', c')
               else Some (Inr \<lparr>success = True, result = Some res, error = None\<rparr>, w', c'))
      | Some (Inl e, w', c') \<Rightarrow>
          if is_Exception e then
            Some (Inr \<lparr>success = False, result = None, error = Some (exn_text e)\<rparr>, w', c')
          else Some (Inl e, w', c'))"

section \<open>Notions of the specification\<close>

text \<open>
  "Every hook returns an empty signal": run in registration order from the world \<open>w\<close>,
  each \<^verbatim>\<open>pre_tool_call\<close> hook of the list returns \<^verbatim>\<open>None\<close>, and the last one leaves the
  world \<open>w1\<close>. The signal is empty when it is \<^verbatim>\<open>None\<close>; a dict, even \<^verbatim>\<open>{}\<close>, is an interrupt.
\<close>

fun all_return_empty ::
  "'w AgentMiddleware list \<Rightarrow> string \<Rightarrow> state \<Rightarrow> 'w \<Rightarrow> 'w \<Rightarrow> bool" where
  "all_return_empty [] tool_name args w w1 = (w1 = w)"
| "all_return_empty (mw # rest) tool_name args w w1 =
     (case pre_tool_call mw tool_name args w of
        (Inr None, w') \<Rightarrow> all_return_empty rest tool_name args w' w1
      | _ \<Rightarrow> False)"

text \<open>
  A sequence of \<^verbatim>\<open>add_node\<close> calls, in the order they are made, and the last call of the
  sequence that names a given node.
\<close>

definition add_node_calls ::
  "(string \<times> 'w handler \<times> RetryPolicy option \<times> string) list \<Rightarrow> 'w StateGraph \<Rightarrow> 'w StateGraph" where
  "add_node_calls calls g =
     fold (\<lambda>(name, func, retry_policy, onf). add_node name func retry_policy onf) calls g"

definition last_call ::
  "string \<Rightarrow> (string \<times> 'w handler \<times> RetryPolicy option \<times> string) list
     \<Rightarrow> (string \<times> 'w handler \<times> RetryPolicy option \<times> string) option" where
  "last_call name calls = find (\<lambda>call. fst call = name) (rev calls)"

text \<open>
  A value is serializable when \<^verbatim>\<open>json.dumps\<close> accepts it, which is the test \<^verbatim>\<open>_serialize\<close>
  makes. "The state restricted to its serializable keys" keeps the items whose value is
  serializable.
\<close>

definition serializable :: "runtime \<Rightarrow> pyval \<Rightarrow> bool" where
  "serializable rt v = (case json_dumps rt (json_depth rt) v of Inr doc \<Rightarrow> True | Inl e \<Rightarrow> False)"

definition restricted_to_serializable :: "runtime \<Rightarrow> state \<Rightarrow> state" where
  "restricted_to_serializable rt st = filter (\<lambda>(k, v). serializable rt v) st"

text \<open>\<^verbatim>\<open>json.loads(json.dumps(v))\<close>, when \<open>d\<close> more containers can be entered.\<close>

definition json_roundtrip :: "runtime \<Rightarrow> nat \<Rightarrow> pyval \<Rightarrow> exn + pyval" where
  "json_roundtrip rt d v =
     (case json_dumps rt d v of
        Inl e \<Rightarrow> Inl e
      | Inr doc \<Rightarrow> json_loads d doc)"

text \<open>The number of containers nested in a value, the value itself counted.\<close>

fun depth :: "pyval \<Rightarrow> nat"
  and depth_list :: "pyval list \<Rightarrow> nat"
  and depth_items :: "(pykey \<times> pyval) list \<Rightarrow> nat" where
  "depth (PList xs) = Suc (depth_list xs)"
| "depth (PTuple xs) = Suc (depth_list xs)"
| "depth (PDict kvs) = Suc (depth_items kvs)"
| "depth PNone = 0"
| "depth (PBool b) = 0"
| "depth (PInt i) = 0"
| "depth (PFloat x) = 0"
| "depth PNaN = 0"
| "depth (PInf b) = 0"
| "depth (PStr s) = 0"
| "depth (PObj tn i) = 0"
| "depth_list [] = 0"
| "depth_list (x # xs) = max (depth x) (depth_list xs)"
| "depth_items [] = 0"
| "depth_items ((k, v) # kvs) = max (depth v) (depth_items kvs)"

text \<open>The empty list inside \<open>n\<close> lists.\<close>

fun nested :: "nat \<Rightarrow> pyval" where
  "nested 0 = PList []"
| "nested (Suc n) = PList [nested n]"

text \<open>
  A value that JSON holds as it is: built from \<^verbatim>\<open>None\<close>, booleans, integers, floats other
  than NaN, strings, lists and dicts whose keys are strings (and, as in every dict,
  distinct). No tuple, no key that is not a string and no NaN occurs in it.
\<close>

fun json_native :: "pyval \<Rightarrow> bool"
  and json_native_list :: "pyval list \<Rightarrow> bool"
  and json_native_items :: "(pykey \<times> pyval) list \<Rightarrow> bool" where
  "json_native (PTuple xs) = False"
| "json_native (PList xs) = json_native_list xs"
| "json_native (PDict kvs) = (distinct (map fst kvs) \<and> json_native_items kvs)"
| "json_native PNone = True"
| "json_native (PBool b) = True"
| "json_native (PInt i) = True"
| "json_native (PFloat x) = True"
| "json_native PNaN = False"
| "json_native (PInf b) = True"
| "json_native (PStr s) = True"
| "json_native (PObj tn i) = False"
| "json_native_list [] = True"
| "json_native_list (x # xs) = (json_native x \<and> json_native_list xs)"
| "json_native_items [] = True"
| "json_native_items ((k, v) # kvs) =
     ((case k of KStr s \<Rightarrow> True | _ \<Rightarrow> False) \<and> json_native v \<and> json_native_items kvs)"

text \<open>"The result restricted to return_keys": the items of the result whose key is listed.\<close>

definition restricted_result :: "string list \<Rightarrow> state \<Rightarrow> state" where
  "restricted_result ks res = AList.restrict (set ks) res"

section \<open>Objects of the test suite\<close>

text \<open>
  \<^verbatim>\<open>failing_node\<close> and \<^verbatim>\<open>increment_node\<close> of the tests, with a call counter as their world.
  \<^verbatim>\<open>failing_node\<close> raises \<^verbatim>\<open>ValueError\<close>; \<^verbatim>\<open>increment_node\<close> does
  \<^verbatim>\<open>state["counter"] = state.get("counter", 0) + 1\<close> on an integer counter (on another value
  the addition raises \<^verbatim>\<open>TypeError\<close>, whose text is not reproduced). \<open>cancelled_node\<close> is a
  handler in which \<^verbatim>\<open>asyncio.CancelledError\<close> is raised.
\<close>

definition cancelled_node :: "nat handler" where
  "cancelled_node st calls = (Inl (Signal [''CancelledError''] [], st), Suc calls)"

definition failing_node :: "nat handler" where
  "failing_node st calls = (Inl (Exn [''ValueError''] ''Intentional failure'', st), Suc calls)"

definition increment_node :: "nat handler" where
  "increment_node st calls =
     (case map_of st ''counter'' of
        None \<Rightarrow> (Inr (AList.update ''counter'' (PInt 1) st), Suc calls)
      | Some (PInt n) \<Rightarrow> (Inr (AList.update ''counter'' (PInt (n + 1)) st), Suc calls)
      | Some v \<Rightarrow> (Inl (Exn [''TypeError''] ''unsupported operand'', st), Suc calls))"

text \<open>A policy that retries \<^verbatim>\<open>TimeoutError\<close> only, and three \<^verbatim>\<open>add_node\<close> calls, two for \<^verbatim>\<open>a\<close>.\<close>

definition timeout_only :: RetryPolicy where
  "timeout_only = default_RetryPolicy\<lparr>retry_on := [''TimeoutError'']\<rparr>"

definition two_adds :: "(string \<times> nat handler \<times> RetryPolicy option \<times> string) list" where
  "two_adds =
     [(''a'', failing_node, None, ''error''), (''b'', increment_node, None, ''error''),
      (''a'', increment_node, Some default_RetryPolicy, ''skip'')]"

text \<open>
  \<^verbatim>\<open>SampleMiddleware\<close> and \<^verbatim>\<open>InterruptMiddleware\<close> of the tests. The world is the list of
  the hook calls made so far.
\<close>

definition SampleMiddleware :: "string \<Rightarrow> string list AgentMiddleware" where
  "SampleMiddleware name =
     AgentMiddleware_base
       \<lparr>pre_invoke := (\<lambda>st calls.
          (Inr (AList.update (''pre_'' @ name) (PBool True) st), calls @ [''pre_'' @ name])),
        post_invoke := (\<lambda>st calls.
          (Inr (AList.update (''post_'' @ name) (PBool True) st), calls @ [''post_'' @ name]))\<rparr>"

definition InterruptMiddleware :: "string list \<Rightarrow> string list AgentMiddleware" where
  "InterruptMiddleware interrupt_tools =
     AgentMiddleware_base
       \<lparr>pre_tool_call := (\<lambda>tool_name args calls.
          (if tool_name \<in> set interrupt_tools
           then Inr (Some [(''__interrupt__'', PBool True), (''tool'', PStr tool_name)])
           else Inr None, calls @ [tool_name]))\<rparr>"

text \<open>
  A runtime for the examples, none of which reaches an error of the runtime or writes a
  float, with no limit on the digits of an integer; the state of
  \<^verbatim>\<open>test_skip_non_serializable\<close>, a state that holds a tuple, a state that holds a dict
  with the key 1, and the state of \<^verbatim>\<open>test_isolation\<close>.
\<close>

definition some_runtime :: runtime where
  "some_runtime =
     \<lparr>node_lookup_error = (\<lambda>v. Exn [''ValueError''] ''Unknown node''),
      key_error = (\<lambda>k. Exn [''KeyError'', ''LookupError''] ''key''),
      float_repr = (\<lambda>x. ''0.0''),
      max_str_digits = 0,
      json_depth = 1000\<rparr>"

definition int_key_state :: state where
  "int_key_state = [(''d'', PDict [(KInt 1, PStr ''a'')])]"

definition mixed_state :: state where
  "mixed_state = [(''serializable'', PStr ''value''), (''non_serializable'', PObj ''function'' 0)]"

definition tuple_state :: state where
  "tuple_state = [(''pair'', PTuple [PInt 1, PInt 2])]"

definition original_state :: state where
  "original_state = [(''key'', PStr ''original'')]"

text \<open>
  Graphs of the test suite, and variants of them. \<open>skip_graph\<close> is the graph of
  \<^verbatim>\<open>test_node_failure_skip\<close>, \<open>redirect_graph\<close> that of the redirect test, \<open>failing_graph\<close>
  that of \<^verbatim>\<open>test_failure_isolation\<close>, \<open>cancelled_graph\<close> the same graph with the handler
  \<open>cancelled_node\<close> under the skip policy; \<open>no_edge_graph\<close> has a node without an outgoing edge,
  and in \<open>router_none_graph\<close> the first edge of the node is a router that returns \<^verbatim>\<open>None\<close>.
  \<open>fail_skip\<close> and \<open>fail_redirect\<close> are the nodes named \<^verbatim>\<open>fail\<close> of the first two graphs.
\<close>

definition skip_graph :: "nat StateGraph" where
  "skip_graph =
     (add_edge ''after'' ''END'' (add_edge ''fail'' ''after''
        (add_node ''after'' increment_node None ''error''
          (add_node ''fail'' failing_node None ''skip'' StateGraph_init))))
       \<lparr>entry_point := Some ''fail''\<rparr>"

definition redirect_graph :: "nat StateGraph" where
  "redirect_graph =
     (add_edge ''recovery'' ''END'' (add_edge ''fail'' ''END''
        (add_node ''recovery'' increment_node None ''error''
          (add_node ''fail'' failing_node None ''recovery'' StateGraph_init))))
       \<lparr>entry_point := Some ''fail''\<rparr>"

definition failing_graph :: "nat StateGraph" where
  "failing_graph =
     (add_edge ''fail'' ''END'' (add_node ''fail'' failing_node None ''error'' StateGraph_init))
       \<lparr>entry_point := Some ''fail''\<rparr>"

definition cancelled_graph :: "nat StateGraph" where
  "cancelled_graph =
     (add_edge ''fail'' ''END'' (add_node ''fail'' cancelled_node None ''skip'' StateGraph_init))
       \<lparr>entry_point := Some ''fail''\<rparr>"

definition no_edge_graph :: "nat StateGraph" where
  "no_edge_graph =
     (add_node ''increment'' increment_node None ''error'' StateGraph_init)
       \<lparr>entry_point := Some ''increment''\<rparr>"

definition router_none_graph :: "nat StateGraph" where
  "router_none_graph =
     (add_edge ''increment'' ''END''
        (add_conditional_edge ''increment'' (\<lambda>st. Inr None)
          (add_node ''increment'' increment_node None ''error'' StateGraph_init)))
       \<lparr>entry_point := Some ''increment''\<rparr>"

definition fail_skip :: "nat Node" where
  "fail_skip =
     \<lparr>node_name = ''fail'', node_handler = failing_node, node_retry_policy = None,
      on_failure = ''skip''\<rparr>"

definition fail_redirect :: "nat Node" where
  "fail_redirect =
     \<lparr>node_name = ''fail'', node_handler = failing_node, node_retry_policy = None,
      on_failure = ''recovery''\<rparr>"

text \<open>
  The state of a run with a thread identifier, before the step of the node \<^verbatim>\<open>fail\<close>,
  when the handler is called, after the failure is recorded, and after it is marked as
  skipped; and the state after the node \<^verbatim>\<open>increment\<close> has run on a counter of 0.
\<close>

definition threaded_state :: state where
  "threaded_state = [(''thread_id'', PStr ''test-123''), (''counter'', PInt 0)]"

definition threaded_running :: state where
  "threaded_running =
     [(''thread_id'', PStr ''test-123''), (''counter'', PInt 0),
      (''_current_node'', PStr ''fail''), (''_node_status'', PStr ''running'')]"

definition threaded_failed :: state where
  "threaded_failed =
     [(''thread_id'', PStr ''test-123''), (''counter'', PInt 0),
      (''_current_node'', PStr ''fail''), (''_node_status'', PStr ''failed''),
      (''_error'', PStr ''Intentional failure'')]"

definition threaded_skipped :: state where
  "threaded_skipped =
     [(''thread_id'', PStr ''test-123''), (''counter'', PInt 0),
      (''_current_node'', PStr ''fail''), (''_node_status'', PStr ''skipped''),
      (''_error'', PStr ''Intentional failure'')]"

definition incremented :: state where
  "incremented =
     [(''counter'', PInt 1), (''_current_node'', PStr ''increment''),
      (''_node_status'', PStr ''success'')]"

text \<open>Executors without a checkpointer.\<close>

definition plain_executor :: "(nat, unit) SubgraphExecutor" where
  "plain_executor = \<lparr>graph = no_edge_graph, checkpointer = None\<rparr>"

definition failing_executor :: "(nat, unit) SubgraphExecutor" where
  "failing_executor = \<lparr>graph = failing_graph, checkpointer = None\<rparr>"

definition cancelled_executor :: "(nat, unit) SubgraphExecutor" where
  "cancelled_executor = \<lparr>graph = cancelled_graph, checkpointer = None\<rparr>"

section \<open>RetryPolicy: properties\<close>

text \<open>
  C10. A policy whose \<open>max_attempts\<close> is zero or negative never calls the handler: the
  loop body does not run, nothing is invoked and nothing is slept, the world and the state
  are as they were, and \<^verbatim>\<open>execute\<close> raises the \<^verbatim>\<open>RuntimeError\<close> "Retry loop completed
  without result or exception".
\<close>

theorem retry_execute_no_attempts:
  assumes "max_attempts p \<le> 0"
  shows "retry_execute p func st w = (Inl (RuntimeError_no_result, st), w, [])"
  using assms by (simp add: retry_execute_def retry_loop.simps)

theorem retry_execute_no_attempts_witness:
  "max_attempts (default_RetryPolicy\<lparr>max_attempts := 0\<rparr>) \<le> 0 \<and>
   retry_execute (default_RetryPolicy\<lparr>max_attempts := 0\<rparr>) failing_node [] 0 =
     (Inl (Exn [''RuntimeError''] ''Retry loop completed without result or exception'', []),
      0, [])"
  using retry_execute_no_attempts [of "default_RetryPolicy\<lparr>max_attempts := 0\<rparr>" failing_node "[]" 0]
  by (simp add: RuntimeError_no_result_def)

text \<open>
  C5, as stated, for every policy: a handler whose failure is not eligible is invoked
  exactly once and its failure is propagated. It fails for a policy with no attempts:
  the handler is not invoked and the failure that leaves \<^verbatim>\<open>execute\<close> is not the handler's.
\<close>

theorem retry_not_eligible_counterexample:
  "failing_node [] 0 = (Inl (Exn [''ValueError''] ''Intentional failure'', []), 1) \<and>
   \<not> isinstance (Exn [''ValueError''] ''Intentional failure'')
       (retry_on (timeout_only\<lparr>max_attempts := 0\<rparr>)) \<and>
   retry_execute (timeout_only\<lparr>max_attempts := 0\<rparr>) failing_node [] 0 =
     (Inl (Exn [''RuntimeError''] ''Retry loop completed without result or exception'', []),
      0, [])"
  by (simp add: retry_execute_def retry_loop.simps timeout_only_def default_RetryPolicy_def
      failing_node_def isinstance_def RuntimeError_no_result_def)

text \<open>
  C5, amended: for a policy with at least one attempt, a handler whose first call raises
  a failure that is not in \<open>retry_on\<close> is invoked exactly once, there is no sleep, and that
  failure leaves \<^verbatim>\<open>execute\<close> unchanged, with the world as the one call left it. At any
  attempt of the loop, a call that raises such a failure is the last call: the failure
  leaves the loop at once, without a sleep.
\<close>

theorem retry_not_eligible_once:
  assumes "1 \<le> max_attempts p"
    and "func st w = (Inl (e, st'), w')"
    and "\<not> isinstance e (retry_on p)"
  shows "retry_execute p func st w = (Inl (e, st'), w', [Invoked]) \<and>
         (\<forall>attempt interval last_exception tr.
            attempt < max_attempts p \<longrightarrow>
            retry_loop p func attempt interval last_exception st w tr =
              (Inl (e, st'), w', tr @ [Invoked]))"
  using assms by (simp add: retry_execute_def retry_loop.simps)

theorem retry_not_eligible_once_witness:
  "1 \<le> max_attempts timeout_only \<and>
   failing_node [] 0 = (Inl (Exn [''ValueError''] ''Intentional failure'', []), 1) \<and>
   \<not> isinstance (Exn [''ValueError''] ''Intentional failure'') (retry_on timeout_only) \<and>
   retry_execute timeout_only failing_node [] 0 =
     (Inl (Exn [''ValueError''] ''Intentional failure'', []), 1, [Invoked])"
proof -
  have a: "1 \<le> max_attempts timeout_only"
    by (simp add: timeout_only_def default_RetryPolicy_def)
  have b: "failing_node [] 0 = (Inl (Exn [''ValueError''] ''Intentional failure'', []), 1)"
    by (simp add: failing_node_def)
  have c: "\<not> isinstance (Exn [''ValueError''] ''Intentional failure'') (retry_on timeout_only)"
    by (simp add: timeout_only_def default_RetryPolicy_def isinstance_def)
  from retry_not_eligible_once
         [of timeout_only failing_node "[]" 0 "Exn [''ValueError''] ''Intentional failure''" "[]" 1]
       a b c
  show ?thesis by simp
qed

section \<open>MiddlewareStack: properties\<close>

lemma invoke_loop_append:
  "invoke_loop hook (xs @ ys) st w =
     (case invoke_loop hook xs st w of
        (Inl e, w') \<Rightarrow> (Inl e, w')
      | (Inr st', w') \<Rightarrow> invoke_loop hook ys st' w')"
  by (induction xs arbitrary: st w) (auto split: prod.splits sum.splits)

lemma invoke_loop_single: "invoke_loop hook [a] st w = hook a st w"
  by (auto split: prod.splits sum.splits)

text \<open>
  C7. The pre-invocation hooks run in registration order and the post-invocation hooks
  in reverse registration order, each hook receiving the state (and the world) that the
  previous one produced: a stack of one middleware runs its hook; for a stack \<open>xs @ ys\<close>
  the pre-invocation hooks of \<open>xs\<close> all run before those of \<open>ys\<close>, which start from the
  state \<open>xs\<close> produced, and the post-invocation hooks of \<open>ys\<close> all run before those of
  \<open>xs\<close>; a middleware added with \<^verbatim>\<open>add\<close> runs its pre-invocation hook last and its
  post-invocation hook first. In particular, with A then B registered, the pre-invocation
  effects are A's then B's, and the post-invocation effects are B's then A's. A hook that
  raises ends the chain.
\<close>

theorem middleware_invoke_order:
  "apply_pre_invoke [] st w = (Inr st, w) \<and>
   apply_post_invoke [] st w = (Inr st, w) \<and>
   apply_pre_invoke [a] st w = pre_invoke a st w \<and>
   apply_post_invoke [a] st w = post_invoke a st w \<and>
   apply_pre_invoke (xs @ ys) st w =
     (case apply_pre_invoke xs st w of
        (Inl e, w') \<Rightarrow> (Inl e, w')
      | (Inr st', w') \<Rightarrow> apply_pre_invoke ys st' w') \<and>
   apply_post_invoke (xs @ ys) st w =
     (case apply_post_invoke ys st w of
        (Inl e, w') \<Rightarrow> (Inl e, w')
      | (Inr st', w') \<Rightarrow> apply_post_invoke xs st' w') \<and>
   apply_pre_invoke (MiddlewareStack_add b xs) st w =
     (case apply_pre_invoke xs st w of
        (Inl e, w') \<Rightarrow> (Inl e, w')
      | (Inr st', w') \<Rightarrow> pre_invoke b st' w') \<and>
   apply_post_invoke (MiddlewareStack_add b xs) st w =
     (case post_invoke b st w of
        (Inl e, w') \<Rightarrow> (Inl e, w')
      | (Inr st', w') \<Rightarrow> apply_post_invoke xs st' w') \<and>
   apply_pre_invoke [a, b] st w =
     (case pre_invoke a st w of
        (Inl e, w') \<Rightarrow> (Inl e, w')
      | (Inr st', w') \<Rightarrow> pre_invoke b st' w') \<and>
   apply_post_invoke [a, b] st w =
     (case post_invoke b st w of
        (Inl e, w') \<Rightarrow> (Inl e, w')
      | (Inr st', w') \<Rightarrow> post_invoke a st' w')"
  unfolding apply_pre_invoke_def apply_post_invoke_def MiddlewareStack_add_def rev_append
  by (simp add: invoke_loop_append invoke_loop_single del: invoke_loop.simps(2))
     (auto split: prod.splits sum.splits)

theorem middleware_invoke_order_witness:
  "apply_pre_invoke [SampleMiddleware ''a'', SampleMiddleware ''b''] [] [] =
     (Inr [(''pre_a'', PBool True), (''pre_b'', PBool True)], [''pre_a'', ''pre_b'']) \<and>
   apply_post_invoke [SampleMiddleware ''a'', SampleMiddleware ''b''] [] [] =
     (Inr [(''post_b'', PBool True), (''post_a'', PBool True)], [''post_b'', ''post_a''])"
  using middleware_invoke_order
    [where a = "SampleMiddleware ''a''" and b = "SampleMiddleware ''b''" and st = "[]"
       and w = "[]"]
  by (simp add: SampleMiddleware_def AgentMiddleware_base_def)

lemma pre_tool_call_loop_append:
  "all_return_empty xs t a w w1 \<Longrightarrow>
   pre_tool_call_loop (xs @ ys) t a w = pre_tool_call_loop ys t a w1"
  by (induction xs arbitrary: w) (auto split: prod.splits sum.splits option.splits)

text \<open>
  C8. The pre-tool-call hooks run in registration order. When every hook of the stack
  returns an empty signal, the chain completes and \<^verbatim>\<open>apply_pre_tool_call\<close> yields no
  interrupt. When every hook registered before \<open>m\<close> returns an empty signal and \<open>m\<close>
  returns a signal, \<^verbatim>\<open>apply_pre_tool_call\<close> returns the signal of \<open>m\<close> and the world as \<open>m\<close>
  left it: the hooks \<open>ys\<close> registered after \<open>m\<close>, whatever they are, are not invoked.
\<close>

theorem pre_tool_call_first_interrupt:
  "(all_return_empty xs t a w w1 \<longrightarrow> apply_pre_tool_call xs t a w = (Inr None, w1)) \<and>
   (all_return_empty xs t a w w1 \<and> pre_tool_call m t a w1 = (Inr (Some signal), w2) \<longrightarrow>
      apply_pre_tool_call (xs @ m # ys) t a w = (Inr (Some signal), w2))"
  unfolding apply_pre_tool_call_def
  using pre_tool_call_loop_append [of xs t a w w1 "[]"]
    pre_tool_call_loop_append [of xs t a w w1 "m # ys"]
  by auto

theorem pre_tool_call_first_interrupt_witness:
  "all_return_empty [InterruptMiddleware [''dangerous_tool'']] ''other_tool'' [] []
     [''other_tool''] \<and>
   pre_tool_call (InterruptMiddleware [''other_tool'']) ''other_tool'' [] [''other_tool''] =
     (Inr (Some [(''__interrupt__'', PBool True), (''tool'', PStr ''other_tool'')]),
      [''other_tool'', ''other_tool'']) \<and>
   apply_pre_tool_call [InterruptMiddleware [''dangerous_tool'']] ''other_tool'' [] [] =
     (Inr None, [''other_tool'']) \<and>
   apply_pre_tool_call
     ([InterruptMiddleware [''dangerous_tool'']] @ InterruptMiddleware [''other_tool''] #
        [InterruptMiddleware [''other_tool'']]) ''other_tool'' [] [] =
     (Inr (Some [(''__interrupt__'', PBool True), (''tool'', PStr ''other_tool'')]),
      [''other_tool'', ''other_tool''])"
proof -
  have p: "all_return_empty [InterruptMiddleware [''dangerous_tool'']] ''other_tool'' [] []
     [''other_tool'']"
    by (simp add: InterruptMiddleware_def AgentMiddleware_base_def)
  have q: "pre_tool_call (InterruptMiddleware [''other_tool'']) ''other_tool'' [] [''other_tool''] =
     (Inr (Some [(''__interrupt__'', PBool True), (''tool'', PStr ''other_tool'')]),
      [''other_tool'', ''other_tool''])"
    by (simp add: InterruptMiddleware_def AgentMiddleware_base_def)
  from pre_tool_call_first_interrupt
         [of "[InterruptMiddleware [''dangerous_tool'']]" "''other_tool''" "[]" "[]"
            "[''other_tool'']" "InterruptMiddleware [''other_tool'']"
            "[(''__interrupt__'', PBool True), (''tool'', PStr ''other_tool'')]"
            "[''other_tool'', ''other_tool'']" "[InterruptMiddleware [''other_tool'']]"]
       p q
  show ?thesis by blast
qed

section \<open>StateGraph: properties\<close>

lemma add_node_lookup:
  "map_of (nodes (add_node n h rp f g)) n' =
     (if n' = n then Some \<lparr>node_name = n, node_handler = h, node_retry_policy = rp, on_failure = f\<rparr>
      else map_of (nodes g) n')"
  by (simp add: add_node_def update_conv')

lemma add_node_distinct:
  "distinct (map fst (nodes g)) \<Longrightarrow> distinct (map fst (nodes (add_node n h rp f g)))"
  by (simp add: add_node_def distinct_update)

lemma add_node_calls_snoc:
  "add_node_calls (cs @ [(n, h, rp, f)]) g = add_node n h rp f (add_node_calls cs g)"
  by (simp add: add_node_calls_def)

lemma add_node_calls_lookup:
  "map_of (nodes (add_node_calls cs g)) n =
     (case last_call n cs of
        Some (n', h, rp, f) \<Rightarrow>
          Some \<lparr>node_name = n, node_handler = h, node_retry_policy = rp, on_failure = f\<rparr>
      | None \<Rightarrow> map_of (nodes g) n)"
proof (induction cs rule: rev_induct)
  case Nil
  show ?case by (simp add: add_node_calls_def last_call_def)
next
  case (snoc c cs)
  obtain n' h rp f where c: "c = (n', h, rp, f)" by (cases c) auto
  show ?case
  proof (cases "n' = n")
    case True
    then show ?thesis by (simp add: c add_node_calls_snoc add_node_lookup last_call_def)
  next
    case False
    then have "last_call n (cs @ [c]) = last_call n cs" by (simp add: c last_call_def)
    with False snoc show ?thesis by (simp add: c add_node_calls_snoc add_node_lookup)
  qed
qed

lemma add_node_calls_distinct:
  "distinct (map fst (nodes g)) \<Longrightarrow> distinct (map fst (nodes (add_node_calls cs g)))"
proof (induction cs rule: rev_induct)
  case Nil
  then show ?case by (simp add: add_node_calls_def)
next
  case (snoc c cs)
  obtain n' h rp f where c: "c = (n', h, rp, f)" by (cases c) auto
  from snoc show ?case by (simp add: c add_node_calls_snoc add_node_distinct)
qed

lemma add_node_frame:
  "edges (add_node n h rp f g) = edges g \<and> entry_point (add_node n h rp f g) = entry_point g"
  by (simp add: add_node_def)

lemma distinct_count_le1: "distinct (map fst al) \<Longrightarrow> length (filter (\<lambda>p. fst p = k) al) \<le> 1"
  by (induction al) (auto simp: filter_empty_conv image_iff)

lemma add_node_present: "length (filter (\<lambda>p. fst p = n) (nodes (add_node n h rp f g))) \<ge> 1"
proof -
  have "map_of (nodes (add_node n h rp f g)) n \<noteq> None" by (simp add: add_node_lookup)
  then obtain v where "(n, v) \<in> set (nodes (add_node n h rp f g))"
    by (auto dest: map_of_SomeD)
  then have "filter (\<lambda>p. fst p = n) (nodes (add_node n h rp f g)) \<noteq> []"
    by (force simp: filter_empty_conv)
  then show ?thesis by (cases "filter (\<lambda>p. fst p = n) (nodes (add_node n h rp f g))") auto
qed

text \<open>
  C9. \<^verbatim>\<open>add_node\<close> with a name that the graph already has replaces the node of that name:
  afterwards the name maps to the node with the handler, retry policy and failure policy
  of this call, every other name maps to what it mapped to, the edges and the entry point
  are untouched, and the dict holds exactly one entry for the name. After any sequence of
  \<^verbatim>\<open>add_node\<close> calls the names of the dict are distinct and each name maps to the node of
  the last call with that name (or to what it mapped to before, when no call names it).
\<close>

theorem add_node_replaces:
  "map_of (nodes (add_node n h rp f g)) n =
     Some \<lparr>node_name = n, node_handler = h, node_retry_policy = rp, on_failure = f\<rparr> \<and>
   (n' \<noteq> n \<longrightarrow> map_of (nodes (add_node n h rp f g)) n' = map_of (nodes g) n') \<and>
   edges (add_node n h rp f g) = edges g \<and>
   entry_point (add_node n h rp f g) = entry_point g \<and>
   (distinct (map fst (nodes g)) \<longrightarrow>
      length (filter (\<lambda>p. fst p = n) (nodes (add_node n h rp f g))) = 1 \<and>
      distinct (map fst (nodes (add_node_calls cs g)))) \<and>
   map_of (nodes (add_node_calls cs g)) n' =
     (case last_call n' cs of
        Some (name, func, retry_policy, onf) \<Rightarrow>
          Some \<lparr>node_name = n', node_handler = func, node_retry_policy = retry_policy,
                on_failure = onf\<rparr>
      | None \<Rightarrow> map_of (nodes g) n')"
proof -
  have "distinct (map fst (nodes g)) \<Longrightarrow>
      length (filter (\<lambda>p. fst p = n) (nodes (add_node n h rp f g))) = 1"
    using distinct_count_le1 [OF add_node_distinct, of g n n h rp f] add_node_present [of n h rp f g]
    by simp
  then show ?thesis
    by (simp add: add_node_lookup add_node_frame add_node_calls_lookup add_node_calls_distinct)
qed

theorem add_node_replaces_witness:
  "''b'' \<noteq> ''a'' \<and> distinct (map fst (nodes (StateGraph_init :: nat StateGraph))) \<and>
   map (\<lambda>(k, nd). (k, on_failure nd, node_retry_policy nd)) (nodes (add_node_calls two_adds StateGraph_init)) =
     [(''a'', ''skip'', Some default_RetryPolicy), (''b'', ''error'', None)] \<and>
   map_of (nodes (add_node_calls two_adds StateGraph_init)) ''a'' =
     Some \<lparr>node_name = ''a'', node_handler = increment_node,
           node_retry_policy = Some default_RetryPolicy, on_failure = ''skip''\<rparr>"
  using add_node_replaces [of "''a''" increment_node "Some default_RetryPolicy" "''skip''"
      "StateGraph_init" "''b''" two_adds]
  by (simp add: StateGraph_init_def add_node_calls_def two_adds_def add_node_def)

section \<open>MemoryCheckpointer: properties\<close>

text \<open>
  What \<^verbatim>\<open>json.dumps\<close> raises is a \<^verbatim>\<open>TypeError\<close>, a \<^verbatim>\<open>ValueError\<close> or the \<^verbatim>\<open>RecursionError\<close> of the
  encoder, and the clause \<^verbatim>\<open>except (TypeError, ValueError)\<close> does not catch the last one. A
  value nested within the depth raises no \<^verbatim>\<open>RecursionError\<close>.
\<close>

lemma recursion_not_caught: "\<not> isinstance recursion_encoding [''TypeError'', ''ValueError'']"
  by (simp add: isinstance_def recursion_encoding_def)

lemma int_str_error: "int_str rt i = Inl e \<Longrightarrow> isinstance e [''TypeError'', ''ValueError'']"
  by (auto simp: int_str_def digits_exceeded_def isinstance_def split: if_splits)

lemma key_string_error: "key_string rt k = Inl e \<Longrightarrow> isinstance e [''TypeError'', ''ValueError'']"
  by (cases k) (auto simp: bad_key_def isinstance_def dest: int_str_error)

lemma map_sum_Inr_iff: "map_sum f g x = Inr y \<longleftrightarrow> (\<exists>z. x = Inr z \<and> y = g z)"
  by (cases x) auto

lemma map_sum_Inl_iff: "map_sum f g x = Inl y \<longleftrightarrow> (\<exists>z. x = Inl z \<and> y = f z)"
  by (cases x) auto

lemma dumps_list_Cons_Inr:
  "json_dumps_list rt d (x # xs) = Inr js \<longleftrightarrow>
     (\<exists>j js'. json_dumps rt d x = Inr j \<and> json_dumps_list rt d xs = Inr js' \<and> js = j # js')"
  by (auto split: sum.splits simp: map_sum_Inr_iff)

lemma dumps_items_Cons_Inr:
  "json_dumps_items rt d ((k, v) # kvs) = Inr ms \<longleftrightarrow>
     (\<exists>s j ms'. key_string rt k = Inr s \<and> json_dumps rt d v = Inr j \<and>
        json_dumps_items rt d kvs = Inr ms' \<and> ms = (s, j) # ms')"
  by (auto split: sum.splits simp: map_sum_Inr_iff)

text \<open>
  A value that is encoded at one depth is, at another depth, encoded to the same document
  or not at all for lack of depth; and what is encoded can be decoded at the same depth,
  and at any greater depth with the same result.
\<close>

lemma dumps_other_depth:
  "\<forall>j d'. json_dumps rt d v = Inr j \<longrightarrow>
     json_dumps rt d' v = Inr j \<or> json_dumps rt d' v = Inl recursion_encoding"
  "\<forall>js d'. json_dumps_list rt d xs = Inr js \<longrightarrow>
     json_dumps_list rt d' xs = Inr js \<or> json_dumps_list rt d' xs = Inl recursion_encoding"
  "\<forall>ms d'. json_dumps_items rt d kvs = Inr ms \<longrightarrow>
     json_dumps_items rt d' kvs = Inr ms \<or> json_dumps_items rt d' kvs = Inl recursion_encoding"
proof (induction rt d v and rt d xs and rt d kvs
      rule: json_dumps_json_dumps_list_json_dumps_items.induct)
  case (8 rt d xs)
  show ?case
  proof (intro allI impI)
    fix j d'
    assume a: "json_dumps rt d (PList xs) = Inr j"
    then have d: "d \<noteq> 0" by (auto split: if_splits)
    with a obtain js where js: "json_dumps_list rt (d - 1) xs = Inr js" "j = JArray js"
      by (auto simp: map_sum_Inr_iff)
    from 8 d js have "json_dumps_list rt (d' - 1) xs = Inr js \<or>
       json_dumps_list rt (d' - 1) xs = Inl recursion_encoding" by blast
    with js show "json_dumps rt d' (PList xs) = Inr j \<or>
       json_dumps rt d' (PList xs) = Inl recursion_encoding" by auto
  qed
next
  case (9 rt d xs)
  show ?case
  proof (intro allI impI)
    fix j d'
    assume a: "json_dumps rt d (PTuple xs) = Inr j"
    then have d: "d \<noteq> 0" by (auto split: if_splits)
    with a obtain js where js: "json_dumps_list rt (d - 1) xs = Inr js" "j = JArray js"
      by (auto simp: map_sum_Inr_iff)
    from 9 d js have "json_dumps_list rt (d' - 1) xs = Inr js \<or>
       json_dumps_list rt (d' - 1) xs = Inl recursion_encoding" by blast
    with js show "json_dumps rt d' (PTuple xs) = Inr j \<or>
       json_dumps rt d' (PTuple xs) = Inl recursion_encoding" by auto
  qed
next
  case (10 rt d kvs)
  show ?case
  proof (intro allI impI)
    fix j d'
    assume a: "json_dumps rt d (PDict kvs) = Inr j"
    then have d: "d \<noteq> 0" by (auto split: if_splits)
    with a obtain ms where ms: "json_dumps_items rt (d - 1) kvs = Inr ms" "j = JObject ms"
      by (auto simp: map_sum_Inr_iff)
    from 10 d ms have "json_dumps_items rt (d' - 1) kvs = Inr ms \<or>
       json_dumps_items rt (d' - 1) kvs = Inl recursion_encoding" by blast
    with ms show "json_dumps rt d' (PDict kvs) = Inr j \<or>
       json_dumps rt d' (PDict kvs) = Inl recursion_encoding" by auto
  qed
next
  case (13 rt d x xs)
  show ?case
  proof (intro allI impI)
    fix js d'
    assume "json_dumps_list rt d (x # xs) = Inr js"
    then obtain j js' where a: "json_dumps rt d x = Inr j" "json_dumps_list rt d xs = Inr js'"
      "js = j # js'" unfolding dumps_list_Cons_Inr by blast
    from 13(1) a have "json_dumps rt d' x = Inr j \<or> json_dumps rt d' x = Inl recursion_encoding"
      by blast
    moreover from 13(2) a
    have "json_dumps_list rt d' xs = Inr js' \<or> json_dumps_list rt d' xs = Inl recursion_encoding"
      by blast
    ultimately show "json_dumps_list rt d' (x # xs) = Inr js \<or>
       json_dumps_list rt d' (x # xs) = Inl recursion_encoding"
      using a by auto
  qed
next
  case (15 rt d k v kvs)
  show ?case
  proof (intro allI impI)
    fix ms d'
    assume "json_dumps_items rt d ((k, v) # kvs) = Inr ms"
    then obtain s j ms' where a: "key_string rt k = Inr s" "json_dumps rt d v = Inr j"
      "json_dumps_items rt d kvs = Inr ms'" "ms = (s, j) # ms'"
      unfolding dumps_items_Cons_Inr by blast
    from 15(1) a have "json_dumps rt d' v = Inr j \<or> json_dumps rt d' v = Inl recursion_encoding"
      by blast
    moreover from 15(2) a
    have "json_dumps_items rt d' kvs = Inr ms' \<or>
       json_dumps_items rt d' kvs = Inl recursion_encoding"
      by blast
    ultimately show "json_dumps_items rt d' ((k, v) # kvs) = Inr ms \<or>
       json_dumps_items rt d' ((k, v) # kvs) = Inl recursion_encoding"
      using a by auto
  qed
qed (auto simp: map_sum_Inr_iff)


lemma dumps_error:
  "json_dumps rt d v = Inl e \<longrightarrow>
     isinstance e [''TypeError'', ''ValueError''] \<or> e = recursion_encoding"
  "json_dumps_list rt d xs = Inl e \<longrightarrow>
     isinstance e [''TypeError'', ''ValueError''] \<or> e = recursion_encoding"
  "json_dumps_items rt d kvs = Inl e \<longrightarrow>
     isinstance e [''TypeError'', ''ValueError''] \<or> e = recursion_encoding"
  by (induction rt d v and rt d xs and rt d kvs
      rule: json_dumps_json_dumps_list_json_dumps_items.induct)
     (auto split: sum.splits simp: map_sum_Inl_iff not_serializable_def
        dest: int_str_error key_string_error, auto simp: isinstance_def)

lemma dumps_within_depth:
  "depth v \<le> d \<longrightarrow> json_dumps rt d v = Inl e \<longrightarrow>
     isinstance e [''TypeError'', ''ValueError'']"
  "depth_list xs \<le> d \<longrightarrow> json_dumps_list rt d xs = Inl e \<longrightarrow>
     isinstance e [''TypeError'', ''ValueError'']"
  "depth_items kvs \<le> d \<longrightarrow> json_dumps_items rt d kvs = Inl e \<longrightarrow>
     isinstance e [''TypeError'', ''ValueError'']"
  by (induction rt d v and rt d xs and rt d kvs
      rule: json_dumps_json_dumps_list_json_dumps_items.induct)
     (auto split: sum.splits simp: map_sum_Inl_iff not_serializable_def
        dest: int_str_error key_string_error, auto simp: isinstance_def)

lemma loads_of_dumps:
  "\<forall>j. json_dumps rt d v = Inr j \<longrightarrow> (\<exists>v'. json_loads d j = Inr v')"
  "\<forall>js. json_dumps_list rt d xs = Inr js \<longrightarrow> (\<exists>vs. json_loads_list d js = Inr vs)"
  "\<forall>ms built. json_dumps_items rt d kvs = Inr ms \<longrightarrow>
     (\<exists>r. json_loads_items d ms built = Inr r)"
proof (induction rt d v and rt d xs and rt d kvs
      rule: json_dumps_json_dumps_list_json_dumps_items.induct)
  case (13 rt d x xs)
  show ?case
  proof (intro allI impI)
    fix js
    assume "json_dumps_list rt d (x # xs) = Inr js"
    then obtain j js' where a: "json_dumps rt d x = Inr j" "json_dumps_list rt d xs = Inr js'"
      "js = j # js'" unfolding dumps_list_Cons_Inr by blast
    from 13(1) a obtain v' where "json_loads d j = Inr v'" by blast
    moreover from 13(2) a obtain vs where "json_loads_list d js' = Inr vs" by blast
    ultimately show "\<exists>vs. json_loads_list d js = Inr vs" using a by simp
  qed
next
  case (15 rt d k v kvs)
  show ?case
  proof (intro allI impI)
    fix ms built
    assume "json_dumps_items rt d ((k, v) # kvs) = Inr ms"
    then obtain s j ms' where a: "key_string rt k = Inr s" "json_dumps rt d v = Inr j"
      "json_dumps_items rt d kvs = Inr ms'" "ms = (s, j) # ms'"
      unfolding dumps_items_Cons_Inr by blast
    from 15(1) a obtain v' where v': "json_loads d j = Inr v'" by blast
    from 15(2) a obtain r where "json_loads_items d ms' (AList.update s v' built) = Inr r"
      by blast
    with v' a show "\<exists>r. json_loads_items d ms built = Inr r" by simp
  qed
qed (auto simp: map_sum_Inr_iff split: if_splits)

lemma loads_list_Cons_Inr:
  "json_loads_list d (j # js) = Inr vs \<longleftrightarrow>
     (\<exists>v vs'. json_loads d j = Inr v \<and> json_loads_list d js = Inr vs' \<and> vs = v # vs')"
  by (auto split: sum.splits simp: map_sum_Inr_iff)

lemma loads_items_Cons_Inr:
  "json_loads_items d ((k, j) # ms) built = Inr r \<longleftrightarrow>
     (\<exists>v. json_loads d j = Inr v \<and> json_loads_items d ms (AList.update k v built) = Inr r)"
  by (auto split: sum.splits)

lemma loads_deeper:
  "\<forall>v d'. json_loads d j = Inr v \<longrightarrow> d \<le> d' \<longrightarrow> json_loads d' j = Inr v"
  "\<forall>vs d'. json_loads_list d js = Inr vs \<longrightarrow> d \<le> d' \<longrightarrow> json_loads_list d' js = Inr vs"
  "\<forall>r d'. json_loads_items d ms built = Inr r \<longrightarrow> d \<le> d' \<longrightarrow>
     json_loads_items d' ms built = Inr r"
proof (induction d j and d js and d ms built
      rule: json_loads_json_loads_list_json_loads_items.induct)
  case (8 d js)
  show ?case
  proof (intro allI impI)
    fix v d'
    assume a: "json_loads d (JArray js) = Inr v" and le: "d \<le> d'"
    then have d: "d \<noteq> 0" by (auto split: if_splits)
    with a obtain vs where vs: "json_loads_list (d - 1) js = Inr vs" "v = PList vs"
      by (auto simp: map_sum_Inr_iff)
    from le have "d - 1 \<le> d' - 1" by simp
    with 8 d vs have "json_loads_list (d' - 1) js = Inr vs" by blast
    with vs d le show "json_loads d' (JArray js) = Inr v" by auto
  qed
next
  case (9 d ms)
  show ?case
  proof (intro allI impI)
    fix v d'
    assume a: "json_loads d (JObject ms) = Inr v" and le: "d \<le> d'"
    then have d: "d \<noteq> 0" by (auto split: if_splits)
    with a obtain kvs where kvs: "json_loads_items (d - 1) ms [] = Inr kvs"
      "v = PDict (str_keys kvs)"
      by (auto simp: map_sum_Inr_iff)
    from le have "d - 1 \<le> d' - 1" by simp
    with 9 d kvs have "json_loads_items (d' - 1) ms [] = Inr kvs" by blast
    with kvs d le show "json_loads d' (JObject ms) = Inr v" by auto
  qed
next
  case (11 d j js)
  show ?case
  proof (intro allI impI)
    fix vs d'
    assume "json_loads_list d (j # js) = Inr vs" and le: "d \<le> d'"
    then obtain v vs' where a: "json_loads d j = Inr v" "json_loads_list d js = Inr vs'"
      "vs = v # vs'" unfolding loads_list_Cons_Inr by blast
    from 11(1) a le have "json_loads d' j = Inr v" by blast
    moreover from 11(2) a le have "json_loads_list d' js = Inr vs'" by blast
    ultimately show "json_loads_list d' (j # js) = Inr vs" using a by simp
  qed
next
  case (13 d k j ms built)
  show ?case
  proof (intro allI impI)
    fix r d'
    assume "json_loads_items d ((k, j) # ms) built = Inr r" and le: "d \<le> d'"
    then obtain v where a: "json_loads d j = Inr v"
      "json_loads_items d ms (AList.update k v built) = Inr r"
      unfolding loads_items_Cons_Inr by blast
    from 13(1) a le have "json_loads d' j = Inr v" by blast
    moreover from 13(2) a le have "json_loads_items d' ms (AList.update k v built) = Inr r"
      by blast
    ultimately show "json_loads_items d' ((k, j) # ms) built = Inr r" by simp
  qed
qed auto


text \<open>A value that JSON holds as it is comes back from the round trip as it was.\<close>

lemma update_fresh: "k \<notin> fst ` set al \<Longrightarrow> AList.update k v al = al @ [(k, v)]"
  by (induction al) auto

lemma fold_update_distinct:
  "distinct (map fst xs) \<Longrightarrow> fst ` set acc \<inter> fst ` set xs = {} \<Longrightarrow>
   fold (\<lambda>(k, v). AList.update k v) xs acc = acc @ xs"
proof (induction xs arbitrary: acc)
  case Nil
  then show ?case by simp
next
  case (Cons p xs)
  obtain k v where p: "p = (k, v)" by (cases p) auto
  from Cons.prems p have fresh: "k \<notin> fst ` set acc" by auto
  from Cons.prems p have "fst ` set (acc @ [(k, v)]) \<inter> fst ` set xs = {}" by auto
  with Cons.IH [of "acc @ [(k, v)]"] Cons.prems
  have "fold (\<lambda>(k, v). AList.update k v) xs (acc @ [(k, v)]) = (acc @ [(k, v)]) @ xs" by simp
  with p fresh show ?case by (simp add: update_fresh)
qed

lemma str_keys_distinct: "distinct (map fst (str_keys kvs)) = distinct (map fst kvs)"
proof -
  have "map fst (str_keys kvs) = map KStr (map fst kvs)"
    by (induction kvs) (auto simp: str_keys_def)
  then show ?thesis by (simp add: distinct_map inj_on_def del: map_map)
qed

lemma native_round_trip:
  "\<forall>j. json_native v \<longrightarrow> json_dumps rt d v = Inr j \<longrightarrow> json_loads d j = Inr v"
  "\<forall>js. json_native_list xs \<longrightarrow> json_dumps_list rt d xs = Inr js \<longrightarrow>
     json_loads_list d js = Inr xs"
  "\<forall>ms built. json_native_items kvs \<longrightarrow> json_dumps_items rt d kvs = Inr ms \<longrightarrow>
     (\<exists>skvs. kvs = str_keys skvs \<and>
        json_loads_items d ms built = Inr (fold (\<lambda>(k, v). AList.update k v) skvs built))"
proof (induction rt d v and rt d xs and rt d kvs
      rule: json_dumps_json_dumps_list_json_dumps_items.induct)
  case (10 rt d kvs)
  show ?case
  proof (intro allI impI)
    fix j
    assume n: "json_native (PDict kvs)" and a: "json_dumps rt d (PDict kvs) = Inr j"
    then have d: "d \<noteq> 0" by (auto split: if_splits)
    with a obtain ms where ms: "json_dumps_items rt (d - 1) kvs = Inr ms" "j = JObject ms"
      by (auto simp: map_sum_Inr_iff)
    from 10 d n ms obtain skvs where s: "kvs = str_keys skvs"
      "json_loads_items (d - 1) ms [] = Inr (fold (\<lambda>(k, v). AList.update k v) skvs [])"
      by fastforce
    from n s have "distinct (map fst skvs)" by (simp add: str_keys_distinct)
    then have "fold (\<lambda>(k, v). AList.update k v) skvs [] = skvs"
      using fold_update_distinct [of skvs "[]"] by simp
    with s ms d show "json_loads d j = Inr (PDict kvs)" by simp
  qed
next
  case (13 rt d x xs)
  show ?case
  proof (intro allI impI)
    fix js
    assume n: "json_native_list (x # xs)" and "json_dumps_list rt d (x # xs) = Inr js"
    then obtain j js' where a: "json_dumps rt d x = Inr j" "json_dumps_list rt d xs = Inr js'"
      "js = j # js'" unfolding dumps_list_Cons_Inr by blast
    from 13(1) a n have "json_loads d j = Inr x" by simp
    moreover from 13(2) a n have "json_loads_list d js' = Inr xs" by simp
    ultimately show "json_loads_list d js = Inr (x # xs)" using a by simp
  qed
next
  case (15 rt d k v kvs)
  show ?case
  proof (intro allI impI)
    fix ms built
    assume n: "json_native_items ((k, v) # kvs)"
      and "json_dumps_items rt d ((k, v) # kvs) = Inr ms"
    then obtain s j ms' where a: "key_string rt k = Inr s" "json_dumps rt d v = Inr j"
      "json_dumps_items rt d kvs = Inr ms'" "ms = (s, j) # ms'"
      unfolding dumps_items_Cons_Inr by blast
    from n a have k: "k = KStr s" by (cases k) auto
    from 15(1) a n have v: "json_loads d j = Inr v" by simp
    from 15(2) a n obtain skvs where s: "kvs = str_keys skvs"
      "json_loads_items d ms' (AList.update s v built) =
         Inr (fold (\<lambda>(k, v). AList.update k v) skvs (AList.update s v built))"
      by fastforce
    from k s have "(k, v) # kvs = str_keys ((s, v) # skvs)" by (simp add: str_keys_def)
    moreover from a v s
    have "json_loads_items d ms built =
        Inr (fold (\<lambda>(k, v). AList.update k v) ((s, v) # skvs) built)" by simp
    ultimately show "\<exists>skvs. (k, v) # kvs = str_keys skvs \<and>
        json_loads_items d ms built = Inr (fold (\<lambda>(k, v). AList.update k v) skvs built)"
      by blast
  qed
next
  case (14 rt d)
  show ?case by (auto simp: str_keys_def)
qed (auto simp: map_sum_Inr_iff split: if_splits)

lemma roundtrip_native:
  "json_native v \<Longrightarrow> serializable rt v \<Longrightarrow> json_roundtrip rt (json_depth rt) v = Inr v"
  using native_round_trip(1) [of v rt "json_depth rt"]
  by (auto simp: serializable_def json_roundtrip_def split: sum.splits)

text \<open>
  The loop of \<^verbatim>\<open>_serialize\<close>: it raises nothing but the \<^verbatim>\<open>RecursionError\<close> of the encoder; its
  result holds the items of the state whose value is serializable, with distinct keys; and
  it returns when every value is nested within the depth.
\<close>

lemma set_update_subset: "set (AList.update k v al) \<subseteq> insert (k, v) (set al)"
  by (induction al) auto

lemma serialize_loop_error: "serialize_loop rt st res = Inl e \<Longrightarrow> e = recursion_encoding"
proof (induction st arbitrary: res)
  case Nil
  then show ?case by simp
next
  case (Cons p rest)
  obtain key val where p: "p = (key, val)" by (cases p) auto
  show ?case
  proof (cases "json_dumps rt (json_depth rt) val")
    case (Inl e')
    with Cons p dumps_error(1) [of rt "json_depth rt" val e'] show ?thesis
      by (auto split: if_splits)
  next
    case (Inr j)
    with Cons p show ?thesis by auto
  qed
qed

lemma serialize_loop_values:
  "serialize_loop rt st res = Inr f \<Longrightarrow>
   set f \<subseteq> set res \<union> {(k, v). (k, v) \<in> set st \<and> serializable rt v}"
proof (induction st arbitrary: res)
  case Nil
  then show ?case by simp
next
  case (Cons p rest)
  obtain key val where p: "p = (key, val)" by (cases p) auto
  show ?case
  proof (cases "json_dumps rt (json_depth rt) val")
    case (Inl e')
    with Cons.prems p have "serialize_loop rt rest res = Inr f" by (auto split: if_splits)
    from Cons.IH [OF this] show ?thesis by auto
  next
    case (Inr j)
    then have s: "serializable rt val" by (simp add: serializable_def)
    from Inr Cons.prems p have "serialize_loop rt rest (AList.update key val res) = Inr f"
      by simp
    from Cons.IH [OF this] set_update_subset [of key val res] s p show ?thesis by auto
  qed
qed

lemma serialize_loop_distinct:
  "serialize_loop rt st res = Inr f \<Longrightarrow> distinct (map fst res) \<Longrightarrow> distinct (map fst f)"
proof (induction st arbitrary: res)
  case Nil
  then show ?case by simp
next
  case (Cons p rest)
  obtain key val where p: "p = (key, val)" by (cases p) auto
  show ?case
  proof (cases "json_dumps rt (json_depth rt) val")
    case (Inl e')
    with Cons.prems p have "serialize_loop rt rest res = Inr f" by (auto split: if_splits)
    from Cons.IH [OF this] Cons.prems show ?thesis by auto
  next
    case (Inr j)
    from Inr Cons.prems p have "serialize_loop rt rest (AList.update key val res) = Inr f"
      by simp
    from Cons.IH [OF this] Cons.prems show ?thesis by (simp add: distinct_update)
  qed
qed

lemma serialize_loop_lookup:
  "distinct (map fst st) \<Longrightarrow> serialize_loop rt st res = Inr f \<Longrightarrow>
   map_of f k =
     (case map_of st k of
        Some v \<Rightarrow> if serializable rt v then Some v else map_of res k
      | None \<Rightarrow> map_of res k)"
proof (induction st arbitrary: res)
  case Nil
  then show ?case by simp
next
  case (Cons p rest)
  obtain key val where p: "p = (key, val)" by (cases p) auto
  from Cons.prems p have nk: "map_of rest key = None" by (simp add: map_of_eq_None_iff)
  from Cons.prems have d: "distinct (map fst rest)" by simp
  show ?case
  proof (cases "json_dumps rt (json_depth rt) val")
    case (Inl e')
    then have ns: "\<not> serializable rt val" by (simp add: serializable_def)
    from Inl Cons.prems p have "serialize_loop rt rest res = Inr f" by (auto split: if_splits)
    from Cons.IH [OF d this] nk ns p show ?thesis by auto
  next
    case (Inr j)
    then have s: "serializable rt val" by (simp add: serializable_def)
    from Inr Cons.prems p have "serialize_loop rt rest (AList.update key val res) = Inr f"
      by simp
    from Cons.IH [OF d this] nk s p show ?thesis
      by (auto simp: update_conv' split: option.splits)
  qed
qed

lemma serialize_loop_within_depth:
  "\<forall>(k, v) \<in> set st. depth v \<le> json_depth rt \<Longrightarrow> \<exists>f. serialize_loop rt st res = Inr f"
proof (induction st arbitrary: res)
  case Nil
  then show ?case by simp
next
  case (Cons p rest)
  obtain key val where p: "p = (key, val)" by (cases p) auto
  show ?case
  proof (cases "json_dumps rt (json_depth rt) val")
    case (Inl e')
    with Cons.prems p dumps_within_depth(1) [of val "json_depth rt" rt e']
    have "isinstance e' [''TypeError'', ''ValueError'']" by auto
    with Inl p Cons.IH [of res] Cons.prems show ?thesis by auto
  next
    case (Inr j)
    with p Cons.IH [of "AList.update key val res"] Cons.prems show ?thesis by auto
  qed
qed

text \<open>
  The dump of the filtered state and the load of its document, item by item: each key is
  read back with the round trip of its value.
\<close>

lemma depth_items_str_keys:
  "depth_items (str_keys st) \<le> d \<longleftrightarrow> (\<forall>(k, v) \<in> set st. depth v \<le> d)"
  by (induction st) (auto simp: str_keys_def)

lemma dumps_items_serializable:
  "\<forall>(k, v) \<in> set f. serializable rt v \<Longrightarrow>
   json_dumps_items rt d (str_keys f) = Inl e \<Longrightarrow> e = recursion_encoding"
proof (induction f)
  case Nil
  then show ?case by (simp add: str_keys_def)
next
  case (Cons p f)
  obtain key val where p: "p = (key, val)" by (cases p) auto
  from Cons.prems p obtain j where j: "json_dumps rt (json_depth rt) val = Inr j"
    by (auto simp: serializable_def split: sum.splits)
  from dumps_other_depth(1) [of rt "json_depth rt" val] j
  have "json_dumps rt d val = Inr j \<or> json_dumps rt d val = Inl recursion_encoding" by blast
  then show ?case
  proof
    assume a: "json_dumps rt d val = Inr j"
    with Cons.prems p have "json_dumps_items rt d (str_keys f) = Inl e"
      by (auto simp: str_keys_def map_sum_Inl_iff)
    with Cons show ?thesis by auto
  next
    assume "json_dumps rt d val = Inl recursion_encoding"
    with Cons.prems p show ?thesis by (auto simp: str_keys_def)
  qed
qed

lemma roundtrip_items:
  "distinct (map fst kvs) \<Longrightarrow> json_dumps_items rt d (str_keys kvs) = Inr ms \<Longrightarrow>
   json_loads_items d ms built = Inr r \<Longrightarrow>
   map_option Inr (map_of r k) =
     (case map_of kvs k of
        Some v \<Rightarrow> Some (json_roundtrip rt d v)
      | None \<Rightarrow> map_option Inr (map_of built k))"
proof (induction kvs arbitrary: ms built)
  case Nil
  then show ?case by (simp add: str_keys_def)
next
  case (Cons p kvs)
  obtain k0 v0 where p: "p = (k0, v0)" by (cases p) auto
  from Cons.prems(2) p have "json_dumps_items rt d ((KStr k0, v0) # str_keys kvs) = Inr ms"
    by (simp add: str_keys_def)
  then obtain s j ms' where a: "key_string rt (KStr k0) = Inr s" "json_dumps rt d v0 = Inr j"
      "json_dumps_items rt d (str_keys kvs) = Inr ms'" "ms = (s, j) # ms'"
    unfolding dumps_items_Cons_Inr by blast
  then have s: "s = k0" by simp
  from Cons.prems(3) a s have "json_loads_items d ((k0, j) # ms') built = Inr r" by simp
  then obtain v0' where l: "json_loads d j = Inr v0'"
      "json_loads_items d ms' (AList.update k0 v0' built) = Inr r"
    unfolding loads_items_Cons_Inr by blast
  from Cons.prems(1) p have d: "distinct (map fst kvs)"
    and nk: "map_of kvs k0 = None" by (simp_all add: map_of_eq_None_iff)
  from a l have rt0: "json_roundtrip rt d v0 = Inr v0'" by (simp add: json_roundtrip_def)
  from Cons.IH [OF d a(3) l(2)] nk rt0 p show ?case
    by (auto simp: update_conv' split: option.splits)
qed

lemma roundtrip_at_limit:
  assumes "serializable rt v" and "json_roundtrip rt d v = Inr v'" and "d \<le> json_depth rt"
  shows "json_roundtrip rt (json_depth rt) v = Inr v'"
proof -
  from assms(1) obtain j where j: "json_dumps rt (json_depth rt) v = Inr j"
    by (auto simp: serializable_def split: sum.splits)
  from assms(2) obtain j' where j': "json_dumps rt d v = Inr j'" "json_loads d j' = Inr v'"
    by (auto simp: json_roundtrip_def split: sum.splits)
  from dumps_other_depth(1) [of rt "json_depth rt" v] j
  have "json_dumps rt d v = Inr j \<or> json_dumps rt d v = Inl recursion_encoding" by blast
  with j' have "j' = j" by auto
  with j' loads_deeper(1) [of d j] assms(3) have "json_loads (json_depth rt) j = Inr v'" by blast
  with j show ?thesis by (simp add: json_roundtrip_def)
qed

text \<open>
  \<^verbatim>\<open>save\<close> either stores a new object, the decoded document of the filtered state, or raises
  the \<^verbatim>\<open>RecursionError\<close> of the encoder and changes nothing.
\<close>

lemma mc_save_cases:
  "(\<exists>f ms snapshot.
      serialize rt st = Inr f \<and> json_depth rt \<noteq> 0 \<and>
      json_dumps_items rt (json_depth rt - 1) (str_keys f) = Inr ms \<and>
      json_loads_items (json_depth rt - 1) ms [] = Inr snapshot \<and>
      mc_save rt now tid st (h, m) =
        (None, h @ [snapshot],
         m\<lparr>store := AList.update tid (length h) (store m),
           timestamps := AList.update tid now (timestamps m)\<rparr>)) \<or>
   mc_save rt now tid st (h, m) = (Some recursion_encoding, h, m)"
proof (cases "serialize rt st")
  case (Inl e)
  then have "e = recursion_encoding" by (simp add: serialize_def serialize_loop_error)
  with Inl show ?thesis by (simp add: mc_save_def)
next
  case (Inr f)
  show ?thesis
  proof (cases "json_depth rt = 0")
    case True
    with Inr show ?thesis by (simp add: mc_save_def)
  next
    case False
    from Inr have "\<forall>(k, v) \<in> set f. serializable rt v"
      using serialize_loop_values [of rt st "[]" f] by (auto simp: serialize_def)
    note ser = this
    show ?thesis
    proof (cases "json_dumps_items rt (json_depth rt - 1) (str_keys f)")
      case (Inl e)
      with ser have "e = recursion_encoding" by (rule dumps_items_serializable)
      with Inl Inr False show ?thesis by (simp add: mc_save_def)
    next
      case ms: (Inr ms)
      with loads_of_dumps(3) [of rt "json_depth rt - 1" "str_keys f"]
      obtain snapshot where "json_loads_items (json_depth rt - 1) ms [] = Inr snapshot" by blast
      with ms Inr False show ?thesis by (simp add: mc_save_def)
    qed
  qed
qed

lemma mc_save_within_depth:
  assumes "depth (PDict (str_keys st)) \<le> json_depth rt"
  shows "fst (mc_save rt now tid st (h, m)) = None"
proof -
  from assms have D: "json_depth rt \<noteq> 0"
    and dep: "\<forall>(k, v) \<in> set st. depth v \<le> json_depth rt - 1"
    by (auto simp: depth_items_str_keys [symmetric])
  then have "\<forall>(k, v) \<in> set st. depth v \<le> json_depth rt" by fastforce
  then obtain f where f: "serialize rt st = Inr f"
    using serialize_loop_within_depth [of st rt "[]"] by (auto simp: serialize_def)
  then have sub: "set f \<subseteq> {(k, v). (k, v) \<in> set st \<and> serializable rt v}"
    using serialize_loop_values [of rt st "[]" f] by (auto simp: serialize_def)
  then have ser: "\<forall>(k, v) \<in> set f. serializable rt v" by auto
  from sub dep have "\<forall>(k, v) \<in> set f. depth v \<le> json_depth rt - 1" by auto
  then have df: "depth_items (str_keys f) \<le> json_depth rt - 1" by (simp add: depth_items_str_keys)
  have "\<exists>ms. json_dumps_items rt (json_depth rt - 1) (str_keys f) = Inr ms"
  proof (cases "json_dumps_items rt (json_depth rt - 1) (str_keys f)")
    case (Inl e)
    with ser have "e = recursion_encoding" by (rule dumps_items_serializable)
    moreover from Inl df dumps_within_depth(3) [of "str_keys f" "json_depth rt - 1" rt e]
    have "isinstance e [''TypeError'', ''ValueError'']" by simp
    ultimately show ?thesis using recursion_not_caught by simp
  next
    case (Inr ms)
    then show ?thesis by simp
  qed
  then obtain ms where ms: "json_dumps_items rt (json_depth rt - 1) (str_keys f) = Inr ms" ..
  with loads_of_dumps(3) [of rt "json_depth rt - 1" "str_keys f"]
  obtain snapshot where "json_loads_items (json_depth rt - 1) ms [] = Inr snapshot" by blast
  with ms f D show ?thesis by (simp add: mc_save_def)
qed

lemma snapshot_lookup:
  assumes "distinct (map fst st)" and "serialize rt st = Inr f"
    and "json_dumps_items rt (json_depth rt - 1) (str_keys f) = Inr ms"
    and "json_loads_items (json_depth rt - 1) ms [] = Inr snapshot"
  shows "map_option Inr (map_of snapshot k) =
     (case map_of st k of
        Some v \<Rightarrow> if serializable rt v then Some (json_roundtrip rt (json_depth rt) v) else None
      | None \<Rightarrow> None)"
proof -
  from assms(2) have df: "distinct (map fst f)"
    using serialize_loop_distinct [of rt st "[]" f] by (simp add: serialize_def)
  from assms(1,2) have lf: "map_of f k =
     (case map_of st k of Some v \<Rightarrow> if serializable rt v then Some v else None | None \<Rightarrow> None)"
    using serialize_loop_lookup [of st rt "[]" f k]
    by (simp add: serialize_def split: option.splits)
  from roundtrip_items [OF df assms(3,4), of k]
  have rs: "map_option Inr (map_of snapshot k) =
     (case map_of f k of Some v \<Rightarrow> Some (json_roundtrip rt (json_depth rt - 1) v) | None \<Rightarrow> None)"
    by (simp split: option.splits)
  show ?thesis
  proof (cases "map_of f k")
    case None
    with rs lf show ?thesis by (auto split: option.splits if_splits)
  next
    case (Some v)
    with lf have st: "map_of st k = Some v" and ser: "serializable rt v"
      by (auto split: option.splits if_splits)
    from rs Some obtain v' where v': "map_of snapshot k = Some v'"
      "json_roundtrip rt (json_depth rt - 1) v = Inr v'"
      by (cases "map_of snapshot k") auto
    from roundtrip_at_limit [OF ser v'(2)] have "json_roundtrip rt (json_depth rt) v = Inr v'"
      by simp
    with v' st ser show ?thesis by simp
  qed
qed

lemma restricted_lookup:
  "distinct (map fst st) \<Longrightarrow>
   map_of (restricted_to_serializable rt st) k =
     (case map_of st k of
        Some v \<Rightarrow> if serializable rt v then Some v else None
      | None \<Rightarrow> None)"
  unfolding restricted_to_serializable_def
proof (induction st)
  case Nil
  then show ?case by simp
next
  case (Cons p st)
  obtain key val where p: "p = (key, val)" by (cases p) auto
  from Cons.prems p have "map_of st key = None" by (simp add: map_of_eq_None_iff)
  with Cons p show ?case by (auto split: option.splits)
qed

lemma mc_load_after_save:
  "now' - now \<le> ttl m \<Longrightarrow>
   mc_load rt now' tid (m\<lparr>store := AList.update tid r (store m),
        timestamps := AList.update tid now (timestamps m)\<rparr>) =
     (Inr (Some r), m\<lparr>store := AList.update tid r (store m),
        timestamps := AList.update tid now (timestamps m)\<rparr>)"
  by (simp add: mc_load_def update_conv')

text \<open>
  \<^verbatim>\<open>save\<close> can raise: the encoder cannot enter a list nested as deep as it can go, and the
  \<^verbatim>\<open>RecursionError\<close> it raises in \<^verbatim>\<open>_serialize\<close> is not caught there.
\<close>

lemma nested_dumps: "d \<le> n \<Longrightarrow> json_dumps rt d (nested n) = Inl recursion_encoding"
  by (induction n arbitrary: d) auto

lemma save_of_nested_raises:
  "mc_save rt now tid [(key, nested (json_depth rt))] (h, m) = (Some recursion_encoding, h, m)"
  by (simp add: mc_save_def serialize_def nested_dumps recursion_not_caught)

text \<open>
  C6, as stated: after \<^verbatim>\<open>save(tid, s)\<close> the loaded value equals \<open>s\<close> restricted to its
  serializable keys. A tuple is serializable and comes back as a list, and a dict with
  the key 1 is serializable and comes back with the key \<^verbatim>\<open>"1"\<close>, so the loaded value differs
  from the restricted state at that key.
\<close>

theorem checkpoint_round_trip_counterexample:
  "distinct (map fst tuple_state) \<and>
   restricted_to_serializable some_runtime tuple_state = [(''pair'', PTuple [PInt 1, PInt 2])] \<and>
   mc_save some_runtime 0 (PStr ''t'') tuple_state ([], MemoryCheckpointer_init 3600) =
     (None, [[(''pair'', PList [PInt 1, PInt 2])]],
      \<lparr>store = [(PStr ''t'', 0)], timestamps = [(PStr ''t'', 0)], ttl = 3600000000\<rparr>) \<and>
   cp_load (memory_checkpointer some_runtime 1) (PStr ''t'')
     ([[(''pair'', PList [PInt 1, PInt 2])]],
      \<lparr>store = [(PStr ''t'', 0)], timestamps = [(PStr ''t'', 0)], ttl = 3600000000\<rparr>) =
     (Inr (Some [(''pair'', PList [PInt 1, PInt 2])]),
      [[(''pair'', PList [PInt 1, PInt 2])]],
      \<lparr>store = [(PStr ''t'', 0)], timestamps = [(PStr ''t'', 0)], ttl = 3600000000\<rparr>) \<and>
   map_of [(''pair'', PList [PInt 1, PInt 2])] ''pair'' \<noteq>
     map_of (restricted_to_serializable some_runtime tuple_state) ''pair'' \<and>
   restricted_to_serializable some_runtime int_key_state = int_key_state \<and>
   mc_save some_runtime 0 (PStr ''t'') int_key_state ([], MemoryCheckpointer_init 3600) =
     (None, [[(''d'', PDict [(KStr ''1'', PStr ''a'')])]],
      \<lparr>store = [(PStr ''t'', 0)], timestamps = [(PStr ''t'', 0)], ttl = 3600000000\<rparr>) \<and>
   map_of [(''d'', PDict [(KStr ''1'', PStr ''a'')])] ''d'' \<noteq>
     map_of (restricted_to_serializable some_runtime int_key_state) ''d''"
  by (simp add: tuple_state_def int_key_state_def restricted_to_serializable_def
      serializable_def mc_save_def serialize_def MemoryCheckpointer_init_def
      memory_checkpointer_def mc_load_def some_runtime_def str_keys_def int_str_def
      int_repr_def nat_repr.simps)

text \<open>
  C6, amended. \<^verbatim>\<open>save\<close> never raises the \<^verbatim>\<open>TypeError\<close> or \<^verbatim>\<open>ValueError\<close> of a value that is not
  serializable: the only exception it raises is the \<^verbatim>\<open>RecursionError\<close> of the encoder, and
  then it stores nothing; and it returns whenever the state, as a value, is nested within
  the depth that the \<^verbatim>\<open>json\<close> module can enter. After a \<^verbatim>\<open>save(tid, s)\<close> that returned, at
  the time \<open>now\<close>, a \<^verbatim>\<open>load(tid)\<close> at a time \<open>now'\<close> within the TTL returns the snapshot made
  by that save. The snapshot has, at every key of \<open>s\<close> whose value is serializable, the
  value that \<^verbatim>\<open>json.loads(json.dumps(...))\<close> returns for it (a tuple has become a list, a
  key of a nested dict its JSON string), and has no other key: every key of \<open>s\<close> with a
  value that is not serializable is absent. When every serializable value of \<open>s\<close> is one
  that JSON holds as it is, the snapshot equals \<open>s\<close> restricted to its serializable keys.
\<close>

theorem checkpoint_round_trip:
  "(\<forall>e. fst (mc_save rt now tid st (h, m)) = Some e \<longrightarrow>
      e = recursion_encoding \<and> \<not> isinstance e [''TypeError'', ''ValueError''] \<and>
      mc_save rt now tid st (h, m) = (Some e, h, m)) \<and>
   (depth (PDict (str_keys st)) \<le> json_depth rt \<longrightarrow>
      fst (mc_save rt now tid st (h, m)) = None) \<and>
   (distinct (map fst st) \<and> now' - now \<le> ttl m \<and>
    fst (mc_save rt now tid st (h, m)) = None \<longrightarrow>
      (case mc_save rt now tid st (h, m) of
         (raised, h', m') \<Rightarrow>
           mc_load rt now' tid m' = (Inr (Some (length h)), m') \<and>
           cp_load (memory_checkpointer rt now') tid (h', m') =
             (Inr (Some (h' ! length h)), h', m') \<and>
           (\<forall>k. map_option Inr (map_of (h' ! length h) k) =
              (case map_of st k of
                 Some v \<Rightarrow>
                   if serializable rt v then Some (json_roundtrip rt (json_depth rt) v)
                   else None
               | None \<Rightarrow> None)) \<and>
           (\<forall>k v. map_of st k = Some v \<and> \<not> serializable rt v \<longrightarrow>
              map_of (h' ! length h) k = None) \<and>
           ((\<forall>(k, v) \<in> set st. serializable rt v \<longrightarrow> json_native v) \<longrightarrow>
              map_of (h' ! length h) = map_of (restricted_to_serializable rt st))))"
proof (intro conjI)
  show "\<forall>e. fst (mc_save rt now tid st (h, m)) = Some e \<longrightarrow>
      e = recursion_encoding \<and> \<not> isinstance e [''TypeError'', ''ValueError''] \<and>
      mc_save rt now tid st (h, m) = (Some e, h, m)"
    using mc_save_cases [of rt st now tid h m] recursion_not_caught by auto
next
  show "depth (PDict (str_keys st)) \<le> json_depth rt \<longrightarrow>
      fst (mc_save rt now tid st (h, m)) = None"
    using mc_save_within_depth [of st rt now tid h m] by blast
next
  show "distinct (map fst st) \<and> now' - now \<le> ttl m \<and>
    fst (mc_save rt now tid st (h, m)) = None \<longrightarrow>
      (case mc_save rt now tid st (h, m) of
         (raised, h', m') \<Rightarrow>
           mc_load rt now' tid m' = (Inr (Some (length h)), m') \<and>
           cp_load (memory_checkpointer rt now') tid (h', m') =
             (Inr (Some (h' ! length h)), h', m') \<and>
           (\<forall>k. map_option Inr (map_of (h' ! length h) k) =
              (case map_of st k of
                 Some v \<Rightarrow>
                   if serializable rt v then Some (json_roundtrip rt (json_depth rt) v)
                   else None
               | None \<Rightarrow> None)) \<and>
           (\<forall>k v. map_of st k = Some v \<and> \<not> serializable rt v \<longrightarrow>
              map_of (h' ! length h) k = None) \<and>
           ((\<forall>(k, v) \<in> set st. serializable rt v \<longrightarrow> json_native v) \<longrightarrow>
              map_of (h' ! length h) = map_of (restricted_to_serializable rt st)))"
  proof
  assume a: "distinct (map fst st) \<and> now' - now \<le> ttl m \<and>
    fst (mc_save rt now tid st (h, m)) = None"
  then have d: "distinct (map fst st)" and t: "now' - now \<le> ttl m" by simp_all
  from a mc_save_cases [of rt st now tid h m]
  obtain f ms snapshot where s: "serialize rt st = Inr f"
    "json_dumps_items rt (json_depth rt - 1) (str_keys f) = Inr ms"
    "json_loads_items (json_depth rt - 1) ms [] = Inr snapshot"
    "mc_save rt now tid st (h, m) =
        (None, h @ [snapshot],
         m\<lparr>store := AList.update tid (length h) (store m),
           timestamps := AList.update tid now (timestamps m)\<rparr>)"
    by auto
  note look = snapshot_lookup [OF d s(1,2,3)]
  have absent: "map_of snapshot k = None"
    if "map_of st k = Some v" and "\<not> serializable rt v" for k v
    using look [of k] that by simp
  have equal: "map_of snapshot = map_of (restricted_to_serializable rt st)"
    if n: "\<forall>(k, v) \<in> set st. serializable rt v \<longrightarrow> json_native v"
  proof
    fix k
    show "map_of snapshot k = map_of (restricted_to_serializable rt st) k"
    proof (cases "map_of st k")
      case None
      with d look [of k] show ?thesis by (simp add: restricted_lookup)
    next
      case (Some v)
      then have "(k, v) \<in> set st" by (rule map_of_SomeD)
      with n have "serializable rt v \<Longrightarrow> json_roundtrip rt (json_depth rt) v = Inr v"
        by (auto simp: roundtrip_native)
      with d Some look [of k] show ?thesis
        by (cases "serializable rt v") (auto simp: restricted_lookup)
    qed
  qed
  from t have load: "mc_load rt now' tid
       (m\<lparr>store := AList.update tid (length h) (store m),
          timestamps := AList.update tid now (timestamps m)\<rparr>) =
     (Inr (Some (length h)),
       m\<lparr>store := AList.update tid (length h) (store m),
          timestamps := AList.update tid now (timestamps m)\<rparr>)"
    by (rule mc_load_after_save)
  from load look absent equal s(4)
  show "case mc_save rt now tid st (h, m) of
         (raised, h', m') \<Rightarrow>
           mc_load rt now' tid m' = (Inr (Some (length h)), m') \<and>
           cp_load (memory_checkpointer rt now') tid (h', m') =
             (Inr (Some (h' ! length h)), h', m') \<and>
           (\<forall>k. map_option Inr (map_of (h' ! length h) k) =
              (case map_of st k of
                 Some v \<Rightarrow>
                   if serializable rt v then Some (json_roundtrip rt (json_depth rt) v)
                   else None
               | None \<Rightarrow> None)) \<and>
           (\<forall>k v. map_of st k = Some v \<and> \<not> serializable rt v \<longrightarrow>
              map_of (h' ! length h) k = None) \<and>
           ((\<forall>(k, v) \<in> set st. serializable rt v \<longrightarrow> json_native v) \<longrightarrow>
              map_of (h' ! length h) = map_of (restricted_to_serializable rt st))"
    by (auto simp: memory_checkpointer_def simp del: map_of_eq_Some_iff)
  qed
qed

theorem checkpoint_round_trip_witness:
  "depth (PDict (str_keys mixed_state)) \<le> json_depth some_runtime \<and>
   distinct (map fst mixed_state) \<and> (1 :: int) - 0 \<le> ttl (MemoryCheckpointer_init 3600) \<and>
   list_all (\<lambda>(k, v). serializable some_runtime v \<longrightarrow> json_native v) mixed_state \<and>
   map_of mixed_state ''non_serializable'' = Some (PObj ''function'' 0) \<and>
   \<not> serializable some_runtime (PObj ''function'' 0) \<and>
   (case mc_save some_runtime 0 (PStr ''thread-1'') mixed_state
           ([], MemoryCheckpointer_init 3600) of
      (raised, h', m') \<Rightarrow>
        raised = None \<and>
        mc_load some_runtime 1 (PStr ''thread-1'') m' = (Inr (Some 0), m') \<and>
        h' ! 0 = [(''serializable'', PStr ''value'')] \<and>
        map_of (h' ! 0) ''non_serializable'' = None \<and>
        map_of (h' ! 0) = map_of (restricted_to_serializable some_runtime mixed_state))"
  using checkpoint_round_trip
    [of some_runtime 0 "PStr ''thread-1''" mixed_state "[]" "MemoryCheckpointer_init 3600" 1]
  by (simp add: mixed_state_def serializable_def mc_save_def serialize_def
      MemoryCheckpointer_init_def mc_load_def restricted_to_serializable_def
      some_runtime_def str_keys_def not_serializable_def isinstance_def)

text \<open>
  The half of C3 that \<^verbatim>\<open>save\<close> keeps: the snapshot is a new object, so a later write to
  the live state, an object \<open>l\<close> of the heap, does not reach it.
\<close>

lemma save_copies_the_live_state:
  assumes "l < length h"
  shows "case mc_save rt now tid (h ! l) (h, m) of
           (raised, h1, m1) \<Rightarrow>
             raised = None \<longrightarrow>
               map_of (store m1) tid = Some (length h) \<and>
               setitem l key val h1 ! length h = h1 ! length h"
  using assms mc_save_cases [of rt "h ! l" now tid h m]
  by (auto simp: setitem_def update_conv' nth_append)

text \<open>
  C3, at the input of the divergence: a state is saved, the dict that \<^verbatim>\<open>load\<close> returns is
  written to, and the next \<^verbatim>\<open>load\<close> returns the written value, not the saved one:
  \<^verbatim>\<open>load\<close> hands out the stored dict object itself.
\<close>

theorem load_returns_the_stored_object:
  "(case mc_save some_runtime 0 (PStr ''thread-1'') original_state
           ([], MemoryCheckpointer_init 3600) of
      (raised, h1, m1) \<Rightarrow>
        (case mc_load some_runtime 1 (PStr ''thread-1'') m1 of
           (loaded, m2) \<Rightarrow>
             loaded = Inr (Some 0) \<and> h1 ! 0 = [(''key'', PStr ''original'')] \<and>
             cp_load (memory_checkpointer some_runtime 2) (PStr ''thread-1'')
               (setitem 0 ''key'' (PStr ''mutated'') h1, m2) =
               (Inr (Some [(''key'', PStr ''mutated'')]),
                setitem 0 ''key'' (PStr ''mutated'') h1, m2)))"
  by (simp add: original_state_def mc_save_def serialize_def MemoryCheckpointer_init_def
      mc_load_def memory_checkpointer_def setitem_def some_runtime_def str_keys_def)

section \<open>StateGraph.run: properties\<close>

lemma get_next_node_no_edge:
  "\<forall>e \<in> set es. edge_source e \<noteq> cur \<Longrightarrow> get_next_node es cur st = Inr None"
  by (induction es) auto

lemma get_next_node_first:
  "\<forall>e \<in> set pre. edge_source e \<noteq> cur \<Longrightarrow> edge_source e = cur \<Longrightarrow>
   get_next_node (pre @ e # post) cur st =
     (case edge_condition e of Some router \<Rightarrow> router st | None \<Rightarrow> Inr (edge_target e))"
  by (induction pre) auto

lemma run_loop_stop:
  "run_loop g ck None st w c = Some (Inr st, w, c)"
  by (simp add: run_loop.simps)

lemma skip_graph_node: "map_of (nodes skip_graph) ''fail'' = Some fail_skip"
  by (simp add: skip_graph_def add_edge_def add_node_def StateGraph_init_def fail_skip_def)

lemma redirect_graph_node: "map_of (nodes redirect_graph) ''fail'' = Some fail_redirect"
  by (simp add: redirect_graph_def add_edge_def add_node_def StateGraph_init_def fail_redirect_def)

lemma threaded_running_eq:
  "threaded_running =
     AList.update ''_node_status'' (PStr ''running'')
       (AList.update ''_current_node'' (PStr ''fail'') threaded_state)"
  by (simp add: threaded_running_def threaded_state_def)

lemma threaded_failed_eq:
  "threaded_failed =
     AList.update ''_error'' (PStr ''Intentional failure'')
       (AList.update ''_node_status'' (PStr ''failed'') threaded_running)"
  by (simp add: threaded_running_def threaded_failed_def)

lemma fail_skip_fails:
  "execute_node fail_skip threaded_running 0 =
     (Inl (Exn [''ValueError''] ''Intentional failure'', threaded_running), 1)"
  by (simp add: execute_node_def fail_skip_def failing_node_def)

lemma fail_redirect_fails:
  "execute_node fail_redirect threaded_running 0 =
     (Inl (Exn [''ValueError''] ''Intentional failure'', threaded_running), 1)"
  by (simp add: execute_node_def fail_redirect_def failing_node_def)

lemma skip_graph_run:
  "run some_runtime skip_graph threaded_state (Some (memory_checkpointer some_runtime 7)) 0
       ([], MemoryCheckpointer_init 3600) =
     Some (Inr [(''thread_id'', PStr ''test-123''), (''counter'', PInt 1),
                (''_current_node'', PStr ''after''), (''_node_status'', PStr ''success''),
                (''_error'', PStr ''Intentional failure'')], 2,
           [threaded_skipped,
            [(''thread_id'', PStr ''test-123''), (''counter'', PInt 1),
             (''_current_node'', PStr ''after''), (''_node_status'', PStr ''success''),
             (''_error'', PStr ''Intentional failure'')]],
           \<lparr>store = [(PStr ''test-123'', 1)], timestamps = [(PStr ''test-123'', 7)],
             ttl = 3600000000\<rparr>)"
  by (simp add: run_def skip_graph_def add_edge_def add_node_def StateGraph_init_def
      checkpoint_target_def threaded_state_def threaded_skipped_def memory_checkpointer_def
      mc_load_def mc_save_def serialize_def MemoryCheckpointer_init_def run_loop.simps
      run_step_def execute_node_def failing_node_def increment_node_def save_and_route_def
      save_checkpoint_def some_runtime_def str_keys_def int_str_def)

lemma no_edge_graph_run:
  "run some_runtime no_edge_graph [(''counter'', PInt 0)] (None :: unit Checkpointer option) 0 () =
     Some (Inr incremented, 1, ())"
  by (simp add: run_def no_edge_graph_def add_node_def StateGraph_init_def checkpoint_target_def
      run_loop.simps run_step_def execute_node_def increment_node_def save_and_route_def
      save_checkpoint_def incremented_def)

lemma router_none_graph_run:
  "run some_runtime router_none_graph [(''counter'', PInt 0)] (None :: unit Checkpointer option) 0 () =
     Some (Inr incremented, 1, ())"
  by (simp add: run_def router_none_graph_def add_node_def add_edge_def add_conditional_edge_def
      StateGraph_init_def checkpoint_target_def
      run_loop.simps run_step_def execute_node_def increment_node_def save_and_route_def
      save_checkpoint_def incremented_def)

lemma failing_graph_run:
  "run some_runtime failing_graph [] (None :: unit Checkpointer option) 0 () =
     Some (Inl (Exn [''ValueError''] ''Intentional failure''), 1, ())"
  by (simp add: run_def failing_graph_def add_node_def add_edge_def
      StateGraph_init_def checkpoint_target_def
      run_loop.simps run_step_def execute_node_def failing_node_def save_and_route_def
      save_checkpoint_def)

text \<open>
  C1, as stated: with a checkpointer and a thread identifier present, a step whose node
  fails under the skip policy leaves the checkpoint store unchanged. In the graph of
  \<^verbatim>\<open>test_node_failure_skip\<close>, run with a \<^verbatim>\<open>MemoryCheckpointer\<close> and the thread identifier
  \<^verbatim>\<open>test-123\<close>, the step of the failing node stores a snapshot whose status is
  \<^verbatim>\<open>skipped\<close>; it is the first of the two snapshots that the whole run creates.
\<close>

theorem skip_step_counterexample:
  "map_of (nodes skip_graph) ''fail'' = Some fail_skip \<and> on_failure fail_skip = ''skip'' \<and>
   checkpoint_target (Some (memory_checkpointer some_runtime 7))
       (map_of threaded_state ''thread_id'') =
     Some (memory_checkpointer some_runtime 7, PStr ''test-123'') \<and>
   execute_node fail_skip threaded_running 0 =
     (Inl (Exn [''ValueError''] ''Intentional failure'', threaded_running), 1) \<and>
   run_step skip_graph (Some (memory_checkpointer some_runtime 7, PStr ''test-123'')) ''fail''
       threaded_state 0 ([], MemoryCheckpointer_init 3600) =
     (Inr (Some ''after'', threaded_skipped), 1, [threaded_skipped],
      \<lparr>store = [(PStr ''test-123'', 0)], timestamps = [(PStr ''test-123'', 7)],
        ttl = 3600000000\<rparr>) \<and>
   ([threaded_skipped],
    \<lparr>store = [(PStr ''test-123'', 0)], timestamps = [(PStr ''test-123'', 7)],
      ttl = 3600000000\<rparr>) \<noteq> ([], MemoryCheckpointer_init 3600) \<and>
   run some_runtime skip_graph threaded_state (Some (memory_checkpointer some_runtime 7)) 0
       ([], MemoryCheckpointer_init 3600) =
     Some (Inr [(''thread_id'', PStr ''test-123''), (''counter'', PInt 1),
                (''_current_node'', PStr ''after''), (''_node_status'', PStr ''success''),
                (''_error'', PStr ''Intentional failure'')], 2,
           [threaded_skipped,
            [(''thread_id'', PStr ''test-123''), (''counter'', PInt 1),
             (''_current_node'', PStr ''after''), (''_node_status'', PStr ''success''),
             (''_error'', PStr ''Intentional failure'')]],
           \<lparr>store = [(PStr ''test-123'', 1)], timestamps = [(PStr ''test-123'', 7)],
             ttl = 3600000000\<rparr>)"
proof -
  have "run_step skip_graph (Some (memory_checkpointer some_runtime 7, PStr ''test-123'')) ''fail''
       threaded_state 0 ([], MemoryCheckpointer_init 3600) =
     (Inr (Some ''after'', threaded_skipped), 1, [threaded_skipped],
      \<lparr>store = [(PStr ''test-123'', 0)], timestamps = [(PStr ''test-123'', 7)],
        ttl = 3600000000\<rparr>)"
    by (simp add: run_step_def skip_graph_node threaded_running_eq [symmetric] fail_skip_fails)
       (simp add: fail_skip_def save_and_route_def save_checkpoint_def memory_checkpointer_def
          mc_save_def serialize_def threaded_running_def threaded_skipped_def
          MemoryCheckpointer_init_def skip_graph_def add_edge_def add_node_def StateGraph_init_def
          some_runtime_def str_keys_def int_str_def)
  moreover have "checkpoint_target (Some (memory_checkpointer some_runtime 7))
       (map_of threaded_state ''thread_id'') =
     Some (memory_checkpointer some_runtime 7, PStr ''test-123'')"
    by (simp add: checkpoint_target_def threaded_state_def)
  moreover have "on_failure fail_skip = ''skip''" by (simp add: fail_skip_def)
  ultimately show ?thesis by (simp add: skip_graph_node fail_skip_fails skip_graph_run)
qed

text \<open>
  C1, amended. With a checkpointer and a thread identifier present, a step whose node
  fails under the skip policy performs the checkpoint save that a successful step
  performs, of the state with the status \<^verbatim>\<open>skipped\<close> and the error text: success steps,
  propagate-failure steps and skip steps write a checkpoint. Only a step whose failure is
  redirected to another node performs no save: it leaves the checkpoint store unchanged.
  A failure is an instance of \<^verbatim>\<open>Exception\<close>; any other raise is not handled by the step and
  leaves \<^verbatim>\<open>run\<close> with the store unchanged, whatever the policy.
\<close>

theorem skip_step_checkpoints:
  assumes "map_of (nodes g) cur = Some node"
    and "running =
      AList.update ''_node_status'' (PStr ''running'')
        (AList.update ''_current_node'' (PStr cur) st)"
  shows "(execute_node node running w = (Inr st1, w') \<longrightarrow>
           snd (snd (run_step g (Some (k, t)) cur st w c)) =
             snd (cp_save k t (AList.update ''_node_status'' (PStr ''success'') st1) c)) \<and>
         (execute_node node running w = (Inl (e, st1), w') \<and>
          st2 = AList.update ''_error'' (PStr (exn_text e))
                  (AList.update ''_node_status'' (PStr ''failed'') st1) \<longrightarrow>
           (if is_Exception e then
              (on_failure node = ''skip'' \<longrightarrow>
                 snd (snd (run_step g (Some (k, t)) cur st w c)) =
                   snd (cp_save k t (AList.update ''_node_status'' (PStr ''skipped'') st2) c)) \<and>
              (on_failure node = ''error'' \<longrightarrow>
                 snd (snd (run_step g (Some (k, t)) cur st w c)) = snd (cp_save k t st2 c)) \<and>
              (on_failure node \<noteq> ''error'' \<and> on_failure node \<noteq> ''skip'' \<longrightarrow>
                 run_step g (Some (k, t)) cur st w c =
                   (Inr (Some (on_failure node), st2), w', c))
            else run_step g (Some (k, t)) cur st w c = (Inl e, w', c)))"
  using assms
  by (auto simp: run_step_def save_and_route_def save_checkpoint_def Let_def
      split: prod.splits option.splits sum.splits)

theorem skip_step_checkpoints_witness:
  "map_of (nodes skip_graph) ''fail'' = Some fail_skip \<and> on_failure fail_skip = ''skip'' \<and>
   execute_node fail_skip threaded_running 0 =
     (Inl (Exn [''ValueError''] ''Intentional failure'', threaded_running), 1) \<and>
   snd (snd (run_step skip_graph (Some (memory_checkpointer some_runtime 7, PStr ''test-123''))
       ''fail'' threaded_state 0 ([], MemoryCheckpointer_init 3600))) =
     ([threaded_skipped],
      \<lparr>store = [(PStr ''test-123'', 0)], timestamps = [(PStr ''test-123'', 7)],
        ttl = 3600000000\<rparr>) \<and>
   map_of (nodes redirect_graph) ''fail'' = Some fail_redirect \<and>
   on_failure fail_redirect \<noteq> ''error'' \<and> on_failure fail_redirect \<noteq> ''skip'' \<and>
   run_step redirect_graph (Some (memory_checkpointer some_runtime 7, PStr ''test-123''))
       ''fail'' threaded_state 0 ([], MemoryCheckpointer_init 3600) =
     (Inr (Some ''recovery'', threaded_failed), 1, [], MemoryCheckpointer_init 3600)"
proof -
  have s: "on_failure fail_skip = ''skip''" by (simp add: fail_skip_def)
  have r: "on_failure fail_redirect = ''recovery''" by (simp add: fail_redirect_def)
  have sv: "snd (cp_save (memory_checkpointer some_runtime 7) (PStr ''test-123'')
       (AList.update ''_node_status'' (PStr ''skipped'') threaded_failed)
       ([], MemoryCheckpointer_init 3600)) =
     ([threaded_skipped],
      \<lparr>store = [(PStr ''test-123'', 0)], timestamps = [(PStr ''test-123'', 7)],
        ttl = 3600000000\<rparr>)"
    by (simp add: memory_checkpointer_def mc_save_def serialize_def threaded_failed_def
        threaded_skipped_def MemoryCheckpointer_init_def some_runtime_def str_keys_def
        int_str_def)
  from skip_step_checkpoints [OF skip_graph_node threaded_running_eq,
      where w = 0 and e = "Exn [''ValueError''] ''Intentional failure''"
        and ?st1.0 = threaded_running and w' = 1 and ?st2.0 = threaded_failed
        and k = "memory_checkpointer some_runtime 7" and t = "PStr ''test-123''"
        and c = "([], MemoryCheckpointer_init 3600)"]
    skip_step_checkpoints [OF redirect_graph_node threaded_running_eq,
      where w = 0 and e = "Exn [''ValueError''] ''Intentional failure''"
        and ?st1.0 = threaded_running and w' = 1 and ?st2.0 = threaded_failed
        and k = "memory_checkpointer some_runtime 7" and t = "PStr ''test-123''"
        and c = "([], MemoryCheckpointer_init 3600)"]
  show ?thesis
    using threaded_failed_eq
    by (simp add: skip_graph_node redirect_graph_node fail_skip_fails fail_redirect_fails s r sv)
qed

text \<open>
  C2, as stated: when no edge has the current node as its source, or the first matching
  router returns no node, \<^verbatim>\<open>run\<close> signals an error. In both situations \<^verbatim>\<open>run\<close> returns the
  state normally.
\<close>

theorem no_next_node_counterexample:
  "edges no_edge_graph = [] \<and>
   run some_runtime no_edge_graph [(''counter'', PInt 0)] (None :: unit Checkpointer option) 0 () =
     Some (Inr incremented, 1, ()) \<and>
   get_next_node (edges router_none_graph) ''increment'' incremented = Inr None \<and>
   run some_runtime router_none_graph [(''counter'', PInt 0)] (None :: unit Checkpointer option) 0 () =
     Some (Inr incremented, 1, ())"
  by (simp add: no_edge_graph_run router_none_graph_run)
     (simp add: no_edge_graph_def router_none_graph_def add_node_def add_edge_def
        add_conditional_edge_def StateGraph_init_def)

text \<open>
  C2, amended. When no edge of the edge list has the current node as its source, and
  when the first edge that has it as its source is conditional and its router returns no
  node, \<^verbatim>\<open>_get_next_node\<close> returns \<^verbatim>\<open>None\<close>; and when, after the current node has executed
  (with success, or with a failure that its policy skips) and the checkpoint (if any) is
  saved, \<^verbatim>\<open>_get_next_node\<close> returns \<^verbatim>\<open>None\<close>, the loop ends and \<^verbatim>\<open>run\<close> returns the state
  normally, as it does at the terminal marker. A failure is an instance of \<^verbatim>\<open>Exception\<close>;
  any other raise of the handler leaves \<^verbatim>\<open>run\<close> before the next node is looked for.
\<close>

theorem no_next_node_returns:
  "((\<forall>e \<in> set (edges g). edge_source e \<noteq> cur) \<longrightarrow>
      get_next_node (edges g) cur st' = Inr None) \<and>
   (edges g = pre @ e # post \<and> (\<forall>x \<in> set pre. edge_source x \<noteq> cur) \<and> edge_source e = cur \<and>
    edge_condition e = Some router \<and> router st' = Inr None \<longrightarrow>
      get_next_node (edges g) cur st' = Inr None) \<and>
   (cur \<noteq> [] \<and> cur \<noteq> ''END'' \<and> map_of (nodes g) cur = Some node \<and>
    execute_node node
      (AList.update ''_node_status'' (PStr ''running'')
        (AList.update ''_current_node'' (PStr cur) st)) w = (Inr st1, w') \<and>
    st' = AList.update ''_node_status'' (PStr ''success'') st1 \<and>
    save_checkpoint ck st' c = (None, c') \<and>
    get_next_node (edges g) cur st' = Inr None \<longrightarrow>
      run_loop g ck (Some cur) st w c = Some (Inr st', w', c')) \<and>
   (cur \<noteq> [] \<and> cur \<noteq> ''END'' \<and> map_of (nodes g) cur = Some node \<and>
    execute_node node
      (AList.update ''_node_status'' (PStr ''running'')
        (AList.update ''_current_node'' (PStr cur) st)) w = (Inl (x, st1), w') \<and>
    on_failure node = ''skip'' \<and>
    st' = AList.update ''_node_status'' (PStr ''skipped'')
            (AList.update ''_error'' (PStr (exn_text x))
              (AList.update ''_node_status'' (PStr ''failed'') st1)) \<and>
    save_checkpoint ck st' c = (None, c') \<and>
    get_next_node (edges g) cur st' = Inr None \<longrightarrow>
      (if is_Exception x then run_loop g ck (Some cur) st w c = Some (Inr st', w', c')
       else run_loop g ck (Some cur) st w c = Some (Inl x, w', c)))"
  using get_next_node_no_edge [of "edges g" cur st'] get_next_node_first [of pre cur e post st']
  by (auto simp: run_loop.simps [of g ck "Some cur"] run_step_def save_and_route_def run_loop_stop)

theorem no_next_node_returns_witness:
  "edges no_edge_graph = [] \<and> ''increment'' \<noteq> [] \<and> ''increment'' \<noteq> ''END'' \<and>
   map_of (nodes no_edge_graph) ''increment'' =
     Some \<lparr>node_name = ''increment'', node_handler = increment_node, node_retry_policy = None,
           on_failure = ''error''\<rparr> \<and>
   execute_node \<lparr>node_name = ''increment'', node_handler = increment_node,
       node_retry_policy = None, on_failure = ''error''\<rparr>
     (AList.update ''_node_status'' (PStr ''running'')
       (AList.update ''_current_node'' (PStr ''increment'') [(''counter'', PInt 0)])) 0 =
     (Inr [(''counter'', PInt 1), (''_current_node'', PStr ''increment''),
           (''_node_status'', PStr ''running'')], 1) \<and>
   incremented = AList.update ''_node_status'' (PStr ''success'')
     [(''counter'', PInt 1), (''_current_node'', PStr ''increment''),
      (''_node_status'', PStr ''running'')] \<and>
   save_checkpoint (None :: (unit Checkpointer \<times> pyval) option) incremented () = (None, ()) \<and>
   get_next_node (edges no_edge_graph) ''increment'' incremented = Inr None \<and>
   run_loop no_edge_graph (None :: (unit Checkpointer \<times> pyval) option) (Some ''increment'')
       [(''counter'', PInt 0)] 0 () =
     Some (Inr incremented, 1, ())"
proof -
  have n: "map_of (nodes no_edge_graph) ''increment'' =
      Some \<lparr>node_name = ''increment'', node_handler = increment_node, node_retry_policy = None,
            on_failure = ''error''\<rparr>"
    by (simp add: no_edge_graph_def add_node_def StateGraph_init_def)
  have e: "\<forall>e \<in> set (edges no_edge_graph). edge_source e \<noteq> ''increment''"
    by (simp add: no_edge_graph_def add_node_def StateGraph_init_def)
  have x: "execute_node \<lparr>node_name = ''increment'', node_handler = increment_node,
        node_retry_policy = None, on_failure = ''error''\<rparr>
      (AList.update ''_node_status'' (PStr ''running'')
        (AList.update ''_current_node'' (PStr ''increment'') [(''counter'', PInt 0)])) 0 =
      (Inr [(''counter'', PInt 1), (''_current_node'', PStr ''increment''),
            (''_node_status'', PStr ''running'')], 1)"
    by (simp add: execute_node_def increment_node_def)
  have i: "incremented = AList.update ''_node_status'' (PStr ''success'')
      [(''counter'', PInt 1), (''_current_node'', PStr ''increment''),
       (''_node_status'', PStr ''running'')]"
    by (simp add: incremented_def)
  have s: "save_checkpoint (None :: (unit Checkpointer \<times> pyval) option) incremented () = (None, ())"
    by (simp add: save_checkpoint_def)
  have d: "edges no_edge_graph = []"
    by (simp add: no_edge_graph_def add_node_def StateGraph_init_def)
  from no_next_node_returns
         [where g = no_edge_graph and cur = "''increment''" and st' = incremented
            and node = "\<lparr>node_name = ''increment'', node_handler = increment_node,
              node_retry_policy = None, on_failure = ''error''\<rparr>"
            and st = "[(''counter'', PInt 0)]" and w = 0
            and ?st1.0 = "[(''counter'', PInt 1), (''_current_node'', PStr ''increment''),
              (''_node_status'', PStr ''running'')]"
            and w' = 1 and ck = None and c = "()" and c' = "()"]
       n e x i s
  have "get_next_node (edges no_edge_graph) ''increment'' incremented = Inr None \<and>
    run_loop no_edge_graph (None :: (unit Checkpointer \<times> pyval) option) (Some ''increment'')
       [(''counter'', PInt 0)] 0 () = Some (Inr incremented, 1, ())"
    by simp
  with n x i s d show ?thesis by simp
qed

section \<open>SubgraphExecutor.execute: properties\<close>

lemma filter_loop_lookup:
  "map_of (filter_loop ks res acc) = map_of acc ++ (map_of res |` set ks)"
proof (induction ks arbitrary: acc)
  case Nil
  then show ?case by simp
next
  case (Cons k ks)
  show ?case
  proof (cases "map_of res k")
    case None
    then have "map_of res |` set (k # ks) = map_of res |` set ks"
      by (auto simp: restrict_map_def fun_eq_iff)
    with None Cons show ?thesis by simp
  next
    case (Some v)
    have "(map_of acc)(k \<mapsto> v) ++ (map_of res |` set ks) =
      map_of acc ++ (map_of res |` set (k # ks))"
      using Some by (auto simp: restrict_map_def fun_eq_iff map_add_def split: option.splits)
    have "map_of (filter_loop (k # ks) res acc) = map_of (filter_loop ks res (AList.update k v acc))"
      using Some by simp
    also have "\<dots> = (map_of acc)(k \<mapsto> v) ++ (map_of res |` set ks)"
      by (simp only: Cons.IH update_conv')
    finally show ?thesis using \<open>(map_of acc)(k \<mapsto> v) ++ (map_of res |` set ks) =
      map_of acc ++ (map_of res |` set (k # ks))\<close> by simp
  qed
qed

lemma filter_loop_restricted:
  "map_of (filter_loop ks res []) = map_of (restricted_result ks res)"
  by (simp add: filter_loop_lookup restricted_result_def restr_conv')

lemma cancelled_graph_run:
  "run some_runtime cancelled_graph [] (None :: unit Checkpointer option) 0 () =
     Some (Inl (Signal [''CancelledError''] []), 1, ())"
  by (simp add: run_def cancelled_graph_def add_node_def add_edge_def
      StateGraph_init_def checkpoint_target_def
      run_loop.simps run_step_def execute_node_def cancelled_node_def)

text \<open>
  C4, as stated: no exception raised during the nested run escapes \<^verbatim>\<open>execute\<close>, and on
  success the result is restricted to \<open>return_keys\<close> when they are specified. When the
  handler of a node is cancelled, the \<^verbatim>\<open>CancelledError\<close> leaves \<^verbatim>\<open>run\<close>, even under the skip
  policy, and leaves \<^verbatim>\<open>execute\<close>. With the empty list specified, the result is the full
  resulting state, not its restriction to no key.
\<close>

theorem subgraph_execute_counterexample:
  "subgraph_execute some_runtime cancelled_executor [] None None None 0 () =
     Some (Inl (Signal [''CancelledError''] []), 1, ()) \<and>
   subgraph_execute some_runtime plain_executor [(''counter'', PInt 0)] None (Some []) None 0 () =
     Some (Inr \<lparr>success = True, result = Some incremented, error = None\<rparr>, 1, ()) \<and>
   map_of incremented \<noteq> map_of (restricted_result [] incremented)"
proof -
  have "map_of incremented ''counter'' \<noteq> map_of (restricted_result [] incremented) ''counter''"
    by (simp add: incremented_def restricted_result_def)
  then have "map_of incremented \<noteq> map_of (restricted_result [] incremented)" by metis
  then show ?thesis
    by (simp add: subgraph_execute_def plain_executor_def cancelled_executor_def
        isolated_state_def no_edge_graph_run cancelled_graph_run)
qed

text \<open>
  C4, amended. No instance of \<^verbatim>\<open>Exception\<close> raised during the nested run escapes \<^verbatim>\<open>execute\<close>:
  when the run fails with one, \<^verbatim>\<open>execute\<close> returns a record with \<open>success = False\<close> and the
  failure's error text. A raise that is no instance of \<^verbatim>\<open>Exception\<close> (a cancellation, a
  keyboard interrupt, an exit) is not caught: it leaves \<^verbatim>\<open>execute\<close> as it left the run, and
  nothing else does. When the run succeeds, \<^verbatim>\<open>execute\<close> returns \<open>success = True\<close> with the
  result restricted to \<open>return_keys\<close> when \<open>return_keys\<close> is a list that is not empty, and
  with the full resulting state when \<open>return_keys\<close> is \<^verbatim>\<open>None\<close> or empty. \<^verbatim>\<open>execute\<close> returns or
  raises exactly when the run ends.
\<close>

theorem subgraph_execute_contains:
  "(run rt (graph ex) (isolated_state initial_state inherit_keys parent_state) (checkpointer ex) w c
      = Some (Inl e, w', c') \<longrightarrow>
    (if is_Exception e then
       subgraph_execute rt ex initial_state inherit_keys return_keys parent_state w c =
         Some (Inr \<lparr>success = False, result = None, error = Some (exn_text e)\<rparr>, w', c')
     else
       subgraph_execute rt ex initial_state inherit_keys return_keys parent_state w c =
         Some (Inl e, w', c'))) \<and>
   (run rt (graph ex) (isolated_state initial_state inherit_keys parent_state) (checkpointer ex) w c
      = Some (Inr res, w', c') \<longrightarrow>
    (\<exists>returned.
       subgraph_execute rt ex initial_state inherit_keys return_keys parent_state w c =
         Some (Inr \<lparr>success = True, result = Some returned, error = None\<rparr>, w', c') \<and>
       (case return_keys of
          None \<Rightarrow> returned = res
        | Some ks \<Rightarrow>
            if ks = [] then returned = res
            else map_of returned = map_of (restricted_result ks res)))) \<and>
   (run rt (graph ex) (isolated_state initial_state inherit_keys parent_state) (checkpointer ex) w c
      = None \<longrightarrow>
    subgraph_execute rt ex initial_state inherit_keys return_keys parent_state w c = None) \<and>
   (subgraph_execute rt ex initial_state inherit_keys return_keys parent_state w c
      = Some (Inl e', w'', c'') \<longrightarrow>
    \<not> is_Exception e' \<and>
    run rt (graph ex) (isolated_state initial_state inherit_keys parent_state) (checkpointer ex) w c
      = Some (Inl e', w'', c''))"
  by (auto simp: subgraph_execute_def filter_loop_restricted
      split: option.splits sum.splits if_splits)

theorem subgraph_execute_contains_witness:
  "run some_runtime (graph failing_executor) (isolated_state [] None None)
       (checkpointer failing_executor) 0 () =
     Some (Inl (Exn [''ValueError''] ''Intentional failure''), 1, ()) \<and>
   is_Exception (Exn [''ValueError''] ''Intentional failure'') \<and>
   subgraph_execute some_runtime failing_executor [] None None None 0 () =
     Some (Inr \<lparr>success = False, result = None, error = Some ''Intentional failure''\<rparr>, 1, ()) \<and>
   run some_runtime (graph cancelled_executor) (isolated_state [] None None)
       (checkpointer cancelled_executor) 0 () =
     Some (Inl (Signal [''CancelledError''] []), 1, ()) \<and>
   \<not> is_Exception (Signal [''CancelledError''] []) \<and>
   subgraph_execute some_runtime cancelled_executor [] None None None 0 () =
     Some (Inl (Signal [''CancelledError''] []), 1, ()) \<and>
   run some_runtime (graph plain_executor) (isolated_state [(''counter'', PInt 0)] None None)
       (checkpointer plain_executor) 0 () =
     Some (Inr incremented, 1, ()) \<and>
   subgraph_execute some_runtime plain_executor [(''counter'', PInt 0)] None
       (Some [''counter'', ''absent'']) None 0 () =
     Some (Inr \<lparr>success = True, result = Some [(''counter'', PInt 1)], error = None\<rparr>, 1, ())"
proof -
  have f: "run some_runtime (graph failing_executor) (isolated_state [] None None)
       (checkpointer failing_executor) 0 () =
     Some (Inl (Exn [''ValueError''] ''Intentional failure''), 1, ())"
    by (simp add: failing_executor_def isolated_state_def failing_graph_run)
  have g: "run some_runtime (graph cancelled_executor) (isolated_state [] None None)
       (checkpointer cancelled_executor) 0 () =
     Some (Inl (Signal [''CancelledError''] []), 1, ())"
    by (simp add: cancelled_executor_def isolated_state_def cancelled_graph_run)
  have p: "run some_runtime (graph plain_executor) (isolated_state [(''counter'', PInt 0)] None None)
       (checkpointer plain_executor) 0 () =
     Some (Inr incremented, 1, ())"
    by (simp add: plain_executor_def isolated_state_def no_edge_graph_run)
  have q: "filter_loop [''counter'', ''absent''] incremented [] = [(''counter'', PInt 1)]"
    by (simp add: incremented_def)
  from subgraph_execute_contains
         [where rt = some_runtime and ex = failing_executor and initial_state = "[]"
            and inherit_keys = None and parent_state = None and w = 0 and c = "()"
            and e = "Exn [''ValueError''] ''Intentional failure''" and w' = 1 and c' = "()"
            and return_keys = None and res = "[]"
            and e' = "Exn [''ValueError''] ''Intentional failure''" and w'' = 1 and c'' = "()"]
       f
  have "subgraph_execute some_runtime failing_executor [] None None None 0 () =
     Some (Inr \<lparr>success = False, result = None, error = Some ''Intentional failure''\<rparr>, 1, ())"
    by simp
  moreover from subgraph_execute_contains
         [where rt = some_runtime and ex = cancelled_executor and initial_state = "[]"
            and inherit_keys = None and parent_state = None and w = 0 and c = "()"
            and e = "Signal [''CancelledError''] []" and w' = 1 and c' = "()"
            and return_keys = None and res = "[]"
            and e' = "Signal [''CancelledError''] []" and w'' = 1 and c'' = "()"]
       g
  have "subgraph_execute some_runtime cancelled_executor [] None None None 0 () =
     Some (Inl (Signal [''CancelledError''] []), 1, ())"
    by simp
  moreover have "subgraph_execute some_runtime plain_executor [(''counter'', PInt 0)] None
       (Some [''counter'', ''absent'']) None 0 () =
     Some (Inr \<lparr>success = True, result = Some [(''counter'', PInt 1)], error = None\<rparr>, 1, ())"
    using p q by (simp add: subgraph_execute_def)
  ultimately show ?thesis using f g p by simp
qed

end
